theory Spec2Isabelle
  imports Main "HOL-Library.Word"
begin

section \<open>Results of asynchronous calls\<close>

text \<open>
  Every service method of the repository is an \<^verbatim>\<open>async\<close> function: it either returns a
  value or throws an \<^verbatim>\<open>Error\<close> with a message. Either way the store it talked to keeps
  whatever was written before the throw, so a call maps a store to a result and the
  store after the call.
\<close>

datatype 'a result = Threw string | Returned 'a

definition ret :: "'a \<Rightarrow> 's \<Rightarrow> 'a result \<times> 's" where
  "ret a s = (Returned a, s)"

definition throw_err :: "string \<Rightarrow> 's \<Rightarrow> 'a result \<times> 's" where
  "throw_err e s = (Threw e, s)"

text \<open>\<^verbatim>\<open>const a = await m; f(a)\<close>: a throw of \<open>m\<close> skips \<open>f\<close>.\<close>

definition bnd :: "('s \<Rightarrow> 'a result \<times> 's) \<Rightarrow> ('a \<Rightarrow> 's \<Rightarrow> 'b result \<times> 's) \<Rightarrow> 's \<Rightarrow> 'b result \<times> 's" where
  "bnd m f s = (case m s of (Threw e, s') \<Rightarrow> (Threw e, s') | (Returned a, s') \<Rightarrow> f a s')"

text \<open>\<^verbatim>\<open>try { m } catch (error) { h(error) }\<close>.\<close>

definition try_catch :: "('s \<Rightarrow> 'a result \<times> 's) \<Rightarrow> (string \<Rightarrow> 's \<Rightarrow> 'a result \<times> 's) \<Rightarrow> 's \<Rightarrow> 'a result \<times> 's" where
  "try_catch m h s = (case m s of (Threw e, s') \<Rightarrow> h e s' | (Returned a, s') \<Rightarrow> (Returned a, s'))"

section \<open>Configuration (core/config/env.ts)\<close>

record config =
  SESSION_COOKIE_NAME :: string
  SESSION_TTL_SECONDS :: int
  SESSION_SLIDING_EXTENSION_SECONDS :: int

text \<open>
  \<^verbatim>\<open>EnvSchema\<close> parses both durations with \<^verbatim>\<open>z.coerce.number().int().positive()\<close>; the
  process exits when the environment does not parse, so every configuration the
  services run under satisfies \<open>config_valid\<close>.
\<close>

definition config_valid :: "config \<Rightarrow> bool" where
  "config_valid cfg \<longleftrightarrow> 0 < SESSION_TTL_SECONDS cfg \<and> 0 < SESSION_SLIDING_EXTENSION_SECONDS cfg"

section \<open>Random bytes and hex rendering (Node's crypto and Buffer)\<close>

type_synonym byte = "8 word"

text \<open>The random source is an input of the model: the i-th byte it hands out.\<close>

type_synonym rng = "nat \<Rightarrow> byte"

definition randomBytes :: "rng \<Rightarrow> nat \<Rightarrow> byte list" where
  "randomBytes rng n = map rng [0..<n]"

definition hexDigit :: "nat \<Rightarrow> char" where
  "hexDigit n = ''0123456789abcdef'' ! n"

definition byteToHex :: "byte \<Rightarrow> string" where
  "byteToHex b = [hexDigit (unat b div 16), hexDigit (unat b mod 16)]"

definition toHex :: "byte list \<Rightarrow> string" where
  "toHex bs = concat (map byteToHex bs)"

section \<open>The credential store (Redis)\<close>

datatype UserRole = ADMIN | USER | GUEST

record SessionPayload =
  uid :: string
  roles :: "UserRole list"
  exp :: int
  createdAt :: int
  lastUsedAt :: int
  ip :: "string option"
  userAgent :: "string option"
  country :: "string option"

text \<open>
  The service uses two kinds of keys, \<^verbatim>\<open>sess:<token>\<close> holding a JSON session payload and
  \<^verbatim>\<open>user:<id>:sessions\<close> holding a set of tokens. The two prefixes differ, so the string
  keys and the set keys never meet and the store is two maps over the full key. A string
  value is kept as the payload it serialises, together with the instant (in whole
  seconds, the clock the service reads with \<^verbatim>\<open>Math.floor(Date.now() / 1000)\<close>) at which
  Redis drops the key. A set has such an instant only once \<^verbatim>\<open>EXPIRE\<close> was called on it.
  An entry whose instant has come stays in the map but no command sees it.
  Set members are kept in insertion order (Redis promises no order).

  \<open>faults\<close> is the connectivity of the store: the n-th command issued from now on throws
  when the n-th flag is set; past the end of the list every command succeeds.
\<close>

record redis =
  strings :: "string \<rightharpoonup> (SessionPayload \<times> int)"
  sets :: "string \<rightharpoonup> (string list \<times> int option)"
  faults :: "bool list"

definition next_fault :: "redis \<Rightarrow> bool" where
  "next_fault r = (case faults r of [] \<Rightarrow> False | f # fs \<Rightarrow> f)"

definition consume :: "redis \<Rightarrow> redis" where
  "consume r = r\<lparr>faults := tl (faults r)\<rparr>"

definition command :: "(redis \<Rightarrow> 'a \<times> redis) \<Rightarrow> redis \<Rightarrow> 'a result \<times> redis" where
  "command op r =
     (if next_fault r then (Threw ''Redis command failed'', consume r)
      else (case op (consume r) of (a, r') \<Rightarrow> (Returned a, r')))"

definition str_lookup :: "redis \<Rightarrow> int \<Rightarrow> string \<Rightarrow> SessionPayload option" where
  "str_lookup r now k =
     (case strings r k of
        None \<Rightarrow> None
      | Some (v, d) \<Rightarrow> if now < d then Some v else None)"

definition set_live :: "redis \<Rightarrow> int \<Rightarrow> string \<Rightarrow> bool" where
  "set_live r now k =
     (case sets r k of
        None \<Rightarrow> False
      | Some (ms, None) \<Rightarrow> True
      | Some (ms, Some d) \<Rightarrow> now < d)"

definition set_lookup :: "redis \<Rightarrow> int \<Rightarrow> string \<Rightarrow> string list" where
  "set_lookup r now k =
     (if set_live r now k then (case sets r k of None \<Rightarrow> [] | Some (ms, dl) \<Rightarrow> ms) else [])"

definition redis_get :: "int \<Rightarrow> string \<Rightarrow> redis \<Rightarrow> SessionPayload option result \<times> redis" where
  "redis_get now k = command (\<lambda>r. (str_lookup r now k, r))"

text \<open>\<^verbatim>\<open>SETEX key seconds value\<close>; Redis answers a non-positive time with an error.\<close>

definition redis_setEx :: "int \<Rightarrow> string \<Rightarrow> int \<Rightarrow> SessionPayload \<Rightarrow> redis \<Rightarrow> unit result \<times> redis" where
  "redis_setEx now k seconds v r =
     (if seconds \<le> 0 then (Threw ''ERR invalid expire time in setex'', consume r)
      else command (\<lambda>r. ((), r\<lparr>strings := (strings r)(k \<mapsto> (v, now + seconds))\<rparr>)) r)"

text \<open>\<^verbatim>\<open>SADD\<close> creates the set (with no time to live) when the key is absent or expired.\<close>

definition redis_sAdd :: "int \<Rightarrow> string \<Rightarrow> string \<Rightarrow> redis \<Rightarrow> unit result \<times> redis" where
  "redis_sAdd now k member =
     command (\<lambda>r.
       ((), if set_live r now k
            then (case sets r k of
                    None \<Rightarrow> r
                  | Some (ms, dl) \<Rightarrow>
                      r\<lparr>sets := (sets r)(k \<mapsto> (if member \<in> set ms then ms else ms @ [member], dl))\<rparr>)
            else r\<lparr>sets := (sets r)(k \<mapsto> ([member], None))\<rparr>))"

text \<open>\<^verbatim>\<open>EXPIRE key seconds\<close> on a set key; a non-positive time deletes the key.\<close>

definition redis_expire :: "int \<Rightarrow> string \<Rightarrow> int \<Rightarrow> redis \<Rightarrow> unit result \<times> redis" where
  "redis_expire now k seconds =
     command (\<lambda>r.
       ((), if set_live r now k
            then (if seconds \<le> 0 then r\<lparr>sets := (sets r)(k := None)\<rparr>
                  else r\<lparr>sets := (sets r)(k \<mapsto> (set_lookup r now k, Some (now + seconds)))\<rparr>)
            else r))"

text \<open>\<^verbatim>\<open>SREM\<close>; Redis removes a set that becomes empty.\<close>

definition redis_sRem :: "int \<Rightarrow> string \<Rightarrow> string \<Rightarrow> redis \<Rightarrow> unit result \<times> redis" where
  "redis_sRem now k member =
     command (\<lambda>r.
       ((), if set_live r now k
            then (case sets r k of
                    None \<Rightarrow> r
                  | Some (ms, dl) \<Rightarrow>
                      (if removeAll member ms = [] then r\<lparr>sets := (sets r)(k := None)\<rparr>
                       else r\<lparr>sets := (sets r)(k \<mapsto> (removeAll member ms, dl))\<rparr>))
            else r))"

definition redis_sMembers :: "int \<Rightarrow> string \<Rightarrow> redis \<Rightarrow> string list result \<times> redis" where
  "redis_sMembers now k = command (\<lambda>r. (set_lookup r now k, r))"

text \<open>\<^verbatim>\<open>DEL key [key ...]\<close> removes the keys whatever they hold.\<close>

definition redis_del :: "string list \<Rightarrow> redis \<Rightarrow> unit result \<times> redis" where
  "redis_del ks =
     command (\<lambda>r.
       ((), r\<lparr>strings := (\<lambda>k. if k \<in> set ks then None else strings r k),
              sets := (\<lambda>k. if k \<in> set ks then None else sets r k)\<rparr>))"

section \<open>SessionService (core/services/sessionService.ts)\<close>

text \<open>
  Every method reads the clock once, as \<^verbatim>\<open>Math.floor(Date.now() / 1000)\<close>; that reading is
  the argument \<open>now\<close>, and the store commands of the call are issued at that instant.
  The token of a new session is the hex rendering of 32 random bytes.
\<close>

record ClientMetadata =
  md_ip :: "string option"
  md_userAgent :: "string option"
  md_country :: "string option"

record SessionMetadata =
  tokenId :: string
  tokenIdHash :: string
  createdAtDate :: int
  lastUsedAtDate :: int
  sm_ip :: "string option"
  sm_userAgent :: "string option"
  sm_country :: "string option"

definition generateSessionToken :: "rng \<Rightarrow> string" where
  "generateSessionToken rng = toHex (randomBytes rng 32)"

definition sessionKey :: "string \<Rightarrow> string" where
  "sessionKey tok = ''sess:'' @ tok"

definition userSessionsKey :: "string \<Rightarrow> string" where
  "userSessionsKey userId = ''user:'' @ userId @ '':sessions''"

definition newSessionPayload :: "config \<Rightarrow> int \<Rightarrow> string \<Rightarrow> UserRole list \<Rightarrow> ClientMetadata option \<Rightarrow> SessionPayload" where
  "newSessionPayload cfg now userId rs metadata =
     \<lparr>uid = userId, roles = rs, exp = now + SESSION_TTL_SECONDS cfg,
      createdAt = now, lastUsedAt = now,
      ip = Option.bind metadata md_ip,
      userAgent = Option.bind metadata md_userAgent,
      country = Option.bind metadata md_country\<rparr>"

definition createSession ::
  "config \<Rightarrow> rng \<Rightarrow> int \<Rightarrow> string \<Rightarrow> UserRole list \<Rightarrow> ClientMetadata option \<Rightarrow> redis \<Rightarrow> string result \<times> redis" where
  "createSession cfg rng now userId rs metadata =
     (let tok = generateSessionToken rng;
          sessionPayload = newSessionPayload cfg now userId rs metadata
      in try_catch
           (bnd (redis_setEx now (sessionKey tok) (SESSION_TTL_SECONDS cfg) sessionPayload) (\<lambda>_.
            bnd (redis_sAdd now (userSessionsKey userId) tok) (\<lambda>_.
            bnd (redis_expire now (userSessionsKey userId) (SESSION_TTL_SECONDS cfg)) (\<lambda>_.
            ret tok))))
           (\<lambda>error. throw_err ''Session creation failed''))"

definition deleteSession :: "int \<Rightarrow> string \<Rightarrow> redis \<Rightarrow> unit result \<times> redis" where
  "deleteSession now tok =
     try_catch
       (bnd (redis_get now (sessionKey tok)) (\<lambda>sessionData.
        bnd (case sessionData of
               None \<Rightarrow> ret ()
             | Some session \<Rightarrow> redis_sRem now (userSessionsKey (uid session)) tok) (\<lambda>_.
        redis_del [sessionKey tok])))
       (\<lambda>error. throw_err ''Session deletion failed'')"

definition getSession :: "config \<Rightarrow> int \<Rightarrow> string \<Rightarrow> redis \<Rightarrow> SessionPayload option result \<times> redis" where
  "getSession cfg now tok =
     try_catch
       (bnd (redis_get now (sessionKey tok)) (\<lambda>sessionData.
          case sessionData of
            None \<Rightarrow> ret None
          | Some session \<Rightarrow>
              if exp session \<le> now then bnd (deleteSession now tok) (\<lambda>_. ret None)
              else if now - lastUsedAt session \<ge> SESSION_SLIDING_EXTENSION_SECONDS cfg
              then (let session' = session\<lparr>lastUsedAt := now, exp := now + SESSION_TTL_SECONDS cfg\<rparr>
                    in bnd (redis_setEx now (sessionKey tok) (SESSION_TTL_SECONDS cfg) session') (\<lambda>_.
                       ret (Some session')))
              else ret (Some session)))
       (\<lambda>error. ret None)"

definition deleteAllUserSessions :: "int \<Rightarrow> string \<Rightarrow> redis \<Rightarrow> unit result \<times> redis" where
  "deleteAllUserSessions now userId =
     try_catch
       (bnd (redis_sMembers now (userSessionsKey userId)) (\<lambda>sessionTokens.
          if length sessionTokens > 0
          then bnd (redis_del (map sessionKey sessionTokens)) (\<lambda>_.
               redis_del [userSessionsKey userId])
          else ret ()))
       (\<lambda>error. throw_err ''Session deletion failed'')"

definition toMetadata :: "string \<Rightarrow> SessionPayload \<Rightarrow> SessionMetadata" where
  "toMetadata tok session =
     \<lparr>tokenId = tok, tokenIdHash = take 8 tok @ ''...'',
      createdAtDate = createdAt session * 1000, lastUsedAtDate = lastUsedAt session * 1000,
      sm_ip = ip session, sm_userAgent = userAgent session, sm_country = country session\<rparr>"

text \<open>The \<^verbatim>\<open>for (const tokenId of sessionTokens)\<close> loop of \<^verbatim>\<open>listUserSessions\<close>.\<close>

fun collectSessions :: "int \<Rightarrow> string list \<Rightarrow> SessionMetadata list \<Rightarrow> redis \<Rightarrow> SessionMetadata list result \<times> redis" where
  "collectSessions now [] sessions r = (Returned sessions, r)"
| "collectSessions now (tok # rest) sessions r =
     (case redis_get now (sessionKey tok) r of
        (Threw e, r') \<Rightarrow> (Threw e, r')
      | (Returned None, r') \<Rightarrow> collectSessions now rest sessions r'
      | (Returned (Some session), r') \<Rightarrow>
          collectSessions now rest (sessions @ [toMetadata tok session]) r')"

text \<open>
  \<^verbatim>\<open>sessions.sort((a, b) => b.lastUsedAt.getTime() - a.lastUsedAt.getTime())\<close>: a stable
  sort, latest use first.
\<close>

definition listUserSessions :: "int \<Rightarrow> string \<Rightarrow> redis \<Rightarrow> SessionMetadata list result \<times> redis" where
  "listUserSessions now userId =
     try_catch
       (bnd (redis_sMembers now (userSessionsKey userId)) (\<lambda>sessionTokens.
        bnd (collectSessions now sessionTokens []) (\<lambda>sessions.
        ret (sort_key (\<lambda>m. - lastUsedAtDate m) sessions))))
       (\<lambda>error. throw_err ''Session listing failed'')"

subsection \<open>Histories of the session store\<close>

text \<open>
  The calls the rest of the application makes on the service. A history starts from a
  store without keys and issues calls, each at the instant its clock reading gives
  (nothing is assumed about the order of these instants); \<open>reach cfg r\<close> says that \<open>r\<close> is
  the store after such a history.
\<close>

datatype sessionCall =
    CreateSession rng string "UserRole list" "ClientMetadata option"
  | GetSession string
  | DeleteSession string
  | DeleteAllUserSessions string
  | ListUserSessions string

fun run :: "config \<Rightarrow> int \<Rightarrow> sessionCall \<Rightarrow> redis \<Rightarrow> redis" where
  "run cfg now (CreateSession rng userId rs metadata) r = snd (createSession cfg rng now userId rs metadata r)"
| "run cfg now (GetSession tok) r = snd (getSession cfg now tok r)"
| "run cfg now (DeleteSession tok) r = snd (deleteSession now tok r)"
| "run cfg now (DeleteAllUserSessions userId) r = snd (deleteAllUserSessions now userId r)"
| "run cfg now (ListUserSessions userId) r = snd (listUserSessions now userId r)"

inductive reach :: "config \<Rightarrow> redis \<Rightarrow> bool" for cfg :: config where
  start: "strings r = Map.empty \<Longrightarrow> sets r = Map.empty \<Longrightarrow> reach cfg r"
| step: "reach cfg r \<Longrightarrow> reach cfg (run cfg now c r)"

text \<open>
  What a stored session record looks like: the payload \<open>p\<close> and the instant \<open>d\<close> at which
  the store drops it. The record was written at \<open>lastUsedAt p\<close>, so \<open>d\<close> is that instant
  plus the time to live handed to \<^verbatim>\<open>SETEX\<close>.
\<close>

definition entry_ok :: "config \<Rightarrow> SessionPayload \<times> int \<Rightarrow> bool" where
  "entry_ok cfg e \<longleftrightarrow>
     (case e of (p, d) \<Rightarrow>
        exp p = lastUsedAt p + SESSION_TTL_SECONDS cfg \<and> createdAt p \<le> lastUsedAt p \<and>
        d = lastUsedAt p + SESSION_TTL_SECONDS cfg)"

definition store_ok :: "config \<Rightarrow> redis \<Rightarrow> bool" where
  "store_ok cfg r \<longleftrightarrow> (\<forall>k e. strings r k = Some e \<longrightarrow> entry_ok cfg e)"

text \<open>A record as a call at instant \<open>now\<close> writes it.\<close>

definition written :: "config \<Rightarrow> int \<Rightarrow> SessionPayload \<times> int \<Rightarrow> bool" where
  "written cfg now e \<longleftrightarrow>
     (case e of (p, d) \<Rightarrow>
        lastUsedAt p = now \<and> exp p = now + SESSION_TTL_SECONDS cfg \<and>
        d = now + SESSION_TTL_SECONDS cfg \<and> createdAt p \<le> now)"

section \<open>Role authorizer (core/http/middleware/rbac.ts)\<close>

definition ROLE_HIERARCHY :: "UserRole \<Rightarrow> UserRole list" where
  "ROLE_HIERARCHY role =
     (case role of
        ADMIN \<Rightarrow> [ADMIN, USER, GUEST]
      | USER \<Rightarrow> [USER, GUEST]
      | GUEST \<Rightarrow> [GUEST])"

text \<open>
  \<^verbatim>\<open>hierarchical: boolean = true\<close>: an argument left out (\<open>None\<close>) stands for \<open>True\<close>.
\<close>

definition hasRolePermission :: "UserRole list \<Rightarrow> UserRole \<Rightarrow> bool option \<Rightarrow> bool" where
  "hasRolePermission userRoles requiredRole hierarchicalArg =
     (let hierarchical = (case hierarchicalArg of None \<Rightarrow> True | Some b \<Rightarrow> b)
      in if \<not> hierarchical then requiredRole \<in> set userRoles
         else list_ex (\<lambda>userRole. requiredRole \<in> set (ROLE_HIERARCHY userRole)) userRoles)"

text \<open>
  The test \<^verbatim>\<open>hasRequiredRole\<close> inside the middleware built by \<^verbatim>\<open>requireRoles\<close>, whose
  options default to \<^verbatim>\<open>{ hierarchical = true }\<close>.
\<close>

definition hasRequiredRole :: "UserRole list \<Rightarrow> bool option \<Rightarrow> UserRole list \<Rightarrow> bool" where
  "hasRequiredRole allowedRoles hierarchicalOpt userRoles =
     (let hierarchical = (case hierarchicalOpt of None \<Rightarrow> True | Some b \<Rightarrow> b)
      in list_ex (\<lambda>requiredRole.
           if hierarchical
           then list_ex (\<lambda>userRole. requiredRole \<in> set (ROLE_HIERARCHY userRole)) userRoles
           else requiredRole \<in> set userRoles) allowedRoles)"

section \<open>The user store (Prisma)\<close>

record User =
  user_id :: string
  email :: string
  user_name :: "string option"
  user_roles :: "UserRole list"
  isActive :: bool

record ApiKey =
  key_id :: string
  userId :: string
  key_name :: "string option"
  keyHash :: string
  key_createdAt :: int
  key_lastUsedAt :: "int option"
  expiresAt :: "int option"

record ApiKeyWithUser = ApiKey +
  user :: User

text \<open>
  The two tables the core reads and writes, rows in insertion order, and the
  connectivity of the database: the n-th query from now on throws when the n-th flag is
  set. Dates are milliseconds since the epoch. \<^verbatim>\<open>findUnique\<close> and \<^verbatim>\<open>findFirst\<close> return the
  first row, in that order, that satisfies the condition.
\<close>

record database =
  users :: "User list"
  apiKeys :: "ApiKey list"
  db_faults :: "bool list"

definition db_next_fault :: "database \<Rightarrow> bool" where
  "db_next_fault d = (case db_faults d of [] \<Rightarrow> False | f # fs \<Rightarrow> f)"

definition db_consume :: "database \<Rightarrow> database" where
  "db_consume d = d\<lparr>db_faults := tl (db_faults d)\<rparr>"

definition query :: "(database \<Rightarrow> 'a result \<times> database) \<Rightarrow> database \<Rightarrow> 'a result \<times> database" where
  "query op d =
     (if db_next_fault d then (Threw ''Database query failed'', db_consume d)
      else op (db_consume d))"

definition prisma_user_findUnique :: "string \<Rightarrow> database \<Rightarrow> User option result \<times> database" where
  "prisma_user_findUnique i = query (\<lambda>d. (Returned (find (\<lambda>u. user_id u = i) (users d)), d))"


text \<open>The join \<^verbatim>\<open>include: { user: ... }\<close> under the filter \<^verbatim>\<open>user: { isActive: true }\<close>.\<close>

definition withActiveUser :: "User list \<Rightarrow> ApiKey \<Rightarrow> ApiKeyWithUser option" where
  "withActiveUser us k =
     (case find (\<lambda>u. user_id u = userId k) us of
        None \<Rightarrow> None
      | Some u \<Rightarrow>
          if isActive u
          then Some \<lparr>key_id = key_id k, userId = userId k, key_name = key_name k,
                     keyHash = keyHash k, key_createdAt = key_createdAt k,
                     key_lastUsedAt = key_lastUsedAt k, expiresAt = expiresAt k, user = u\<rparr>
          else None)"

fun firstByHash :: "User list \<Rightarrow> string \<Rightarrow> ApiKey list \<Rightarrow> ApiKeyWithUser option" where
  "firstByHash us h [] = None"
| "firstByHash us h (k # ks) =
     (if keyHash k = h
      then (case withActiveUser us k of Some r \<Rightarrow> Some r | None \<Rightarrow> firstByHash us h ks)
      else firstByHash us h ks)"

definition prisma_apiKey_findFirst :: "string \<Rightarrow> database \<Rightarrow> ApiKeyWithUser option result \<times> database" where
  "prisma_apiKey_findFirst h = query (\<lambda>d. (Returned (firstByHash (users d) h (apiKeys d)), d))"

text \<open>\<^verbatim>\<open>prisma.apiKey.update\<close> throws when no row has the id.\<close>

definition prisma_apiKey_update :: "string \<Rightarrow> int \<Rightarrow> database \<Rightarrow> unit result \<times> database" where
  "prisma_apiKey_update i nowMs =
     query (\<lambda>d.
       if list_ex (\<lambda>k. key_id k = i) (apiKeys d)
       then (Returned (),
             d\<lparr>apiKeys := map (\<lambda>k. if key_id k = i then k\<lparr>key_lastUsedAt := Some nowMs\<rparr> else k) (apiKeys d)\<rparr>)
       else (Threw ''Record to update not found'', d))"

section \<open>ApiKeyService (modules/api-keys/service.ts)\<close>

definition is_lower :: "char \<Rightarrow> bool" where
  "is_lower c \<longleftrightarrow> 97 \<le> (of_char c :: nat) \<and> (of_char c :: nat) \<le> 122"

definition is_hex :: "char \<Rightarrow> bool" where
  "is_hex c \<longleftrightarrow> (48 \<le> (of_char c :: nat) \<and> (of_char c :: nat) \<le> 57) \<or>
                 (97 \<le> (of_char c :: nat) \<and> (of_char c :: nat) \<le> 102)"

text \<open>
  \<^verbatim>\<open>API_KEY_REGEX = /^([a-z]{1,12}_)?[0-9a-f]{128}$/\<close>, read part by part: the body
  \<^verbatim>\<open>[0-9a-f]{128}\<close>, the optional group \<^verbatim>\<open>[a-z]{1,12}_\<close> before it.
\<close>

definition hex_body :: "string \<Rightarrow> bool" where
  "hex_body s \<longleftrightarrow> length s = 128 \<and> list_all is_hex s"

definition name_prefix :: "string \<Rightarrow> bool" where
  "name_prefix s \<longleftrightarrow> 1 \<le> length s \<and> length s \<le> 12 \<and> list_all is_lower s"

definition validateApiKeyFormat :: "string \<Rightarrow> bool" where
  "validateApiKeyFormat apiKey \<longleftrightarrow>
     hex_body apiKey \<or>
     list_ex (\<lambda>n. name_prefix (take n apiKey) \<and> apiKey ! n = CHR ''_'' \<and> hex_body (drop (Suc n) apiKey))
       [0..<length apiKey]"



text \<open>\<^verbatim>\<open>Buffer.from(s, 'hex')\<close>: pairs of hex digits, up to the first pair that is not one.\<close>

definition hexValue :: "char \<Rightarrow> nat option" where
  "hexValue c =
     (let n = (of_char c :: nat)
      in if 48 \<le> n \<and> n \<le> 57 then Some (n - 48)
         else if 97 \<le> n \<and> n \<le> 102 then Some (n - 87)
         else if 65 \<le> n \<and> n \<le> 70 then Some (n - 55)
         else None)"

fun bufferFromHex :: "string \<Rightarrow> nat list" where
  "bufferFromHex (a # b # rest) =
     (case (hexValue a, hexValue b) of
        (Some x, Some y) \<Rightarrow> (16 * x + y) # bufferFromHex rest
      | _ \<Rightarrow> [])"
| "bufferFromHex _ = []"

definition timingSafeEqual :: "nat list \<Rightarrow> nat list \<Rightarrow> bool result" where
  "timingSafeEqual a b =
     (if length a \<noteq> length b then Threw ''Input buffers must have the same byte length''
      else Returned (a = b))"

definition constantTimeCompare :: "string \<Rightarrow> string \<Rightarrow> bool result" where
  "constantTimeCompare a b =
     (if length a \<noteq> length b then Returned False
      else timingSafeEqual (bufferFromHex a) (bufferFromHex b))"

text \<open>A key with expiry date \<open>e\<close> is still good at \<open>t\<close>: no date, or \<open>t\<close> before it.\<close>

definition unexpired :: "int option \<Rightarrow> int \<Rightarrow> bool" where
  "unexpired e t \<longleftrightarrow> (case e of None \<Rightarrow> True | Some x \<Rightarrow> t < x)"

definition pure_call :: "'a result \<Rightarrow> 's \<Rightarrow> 'a result \<times> 's" where
  "pure_call x s = (x, s)"


definition validateApiKey ::
  "(string \<Rightarrow> string) \<Rightarrow> int \<Rightarrow> string \<Rightarrow> database \<Rightarrow> ApiKeyWithUser option result \<times> database" where
  "validateApiKey sha256 nowMs apiKey =
     try_catch
       (if \<not> validateApiKeyFormat apiKey then ret None
        else (let h = sha256 apiKey
              in bnd (prisma_apiKey_findFirst h) (\<lambda>apiKeyRecord.
                   case apiKeyRecord of
                     None \<Rightarrow> ret None
                   | Some found \<Rightarrow>
                       if (case expiresAt found of None \<Rightarrow> False | Some e \<Rightarrow> e \<le> nowMs) then ret None
                       else bnd (pure_call (constantTimeCompare h (keyHash found))) (\<lambda>same.
                              if \<not> same then ret None else ret (Some found)))))
       (\<lambda>error. ret None)"

definition updateLastUsed :: "int \<Rightarrow> string \<Rightarrow> database \<Rightarrow> unit result \<times> database" where
  "updateLastUsed nowMs apiKeyId =
     try_catch (prisma_apiKey_update apiKeyId nowMs) (\<lambda>error. ret ())"

section \<open>Unified authenticator (core/http/middleware/auth.ts)\<close>

datatype errorCode =
  AUTHENTICATION_REQUIRED | INVALID_TOKEN | USER_INACTIVE | INSUFFICIENT_PERMISSIONS | INTERNAL_ERROR

text \<open>
  What the middleware reads of a request: the Authorization header and the cookies. The
  request is handled at one clock reading \<open>nowMs\<close> (milliseconds); the session service
  sees it in whole seconds.
\<close>

record Request =
  authorization :: "string option"
  cookies :: "string \<rightharpoonup> string"

text \<open>What it attaches to the request before calling \<^verbatim>\<open>next()\<close>.\<close>

record Attached =
  req_user :: "User option"
  req_apiKey :: "ApiKeyWithUser option"
  req_session :: "SessionPayload option"
  req_sessionToken :: "string option"

text \<open>
  The middleware ends in \<^verbatim>\<open>next()\<close> or in \<^verbatim>\<open>sendErrorResponse\<close> with an error code; the
  list names the cookies \<^verbatim>\<open>res.clearCookie\<close> was called on before.
\<close>

datatype outcome = Next Attached | ErrorResponse errorCode "string list"

record world =
  db :: database
  store :: redis

definition on_db :: "(database \<Rightarrow> 'a result \<times> database) \<Rightarrow> world \<Rightarrow> 'a result \<times> world" where
  "on_db m w = (case m (db w) of (x, d) \<Rightarrow> (x, w\<lparr>db := d\<rparr>))"

definition on_store :: "(redis \<Rightarrow> 'a result \<times> redis) \<Rightarrow> world \<Rightarrow> 'a result \<times> world" where
  "on_store m w = (case m (store w) of (x, r) \<Rightarrow> (x, w\<lparr>store := r\<rparr>))"

text \<open>
  \<^verbatim>\<open>m.catch(() => {})\<close> without \<^verbatim>\<open>await\<close>: the call runs, its outcome is dropped.
\<close>

definition detached :: "('s \<Rightarrow> 'a result \<times> 's) \<Rightarrow> 's \<Rightarrow> unit result \<times> 's" where
  "detached m s = (Returned (), snd (m s))"

definition nothingAttached :: Attached where
  "nothingAttached = \<lparr>req_user = None, req_apiKey = None, req_session = None, req_sessionToken = None\<rparr>"

text \<open>
  The session-cookie steps. \<^verbatim>\<open>requireSession\<close> consists of them, and \<^verbatim>\<open>requireAuth\<close>
  repeats the same statements after its bearer branch.
\<close>

definition sessionCookieAuth :: "config \<Rightarrow> int \<Rightarrow> Request \<Rightarrow> world \<Rightarrow> outcome result \<times> world" where
  "sessionCookieAuth cfg nowMs req =
     (case cookies req (SESSION_COOKIE_NAME cfg) of
        None \<Rightarrow> ret (ErrorResponse AUTHENTICATION_REQUIRED [])
      | Some sessionToken \<Rightarrow>
          if sessionToken = [] then ret (ErrorResponse AUTHENTICATION_REQUIRED [])
          else bnd (on_store (getSession cfg (nowMs div 1000) sessionToken)) (\<lambda>session.
                 case session of
                   None \<Rightarrow> ret (ErrorResponse INVALID_TOKEN [SESSION_COOKIE_NAME cfg])
                 | Some s \<Rightarrow>
                     bnd (on_db (prisma_user_findUnique (uid s))) (\<lambda>found.
                       case found of
                         None \<Rightarrow>
                           bnd (on_store (deleteSession (nowMs div 1000) sessionToken)) (\<lambda>_.
                           ret (ErrorResponse AUTHENTICATION_REQUIRED []))
                       | Some u \<Rightarrow>
                           if \<not> isActive u then ret (ErrorResponse USER_INACTIVE [])
                           else ret (Next (nothingAttached\<lparr>req_user := Some u, req_session := Some s,
                                             req_sessionToken := Some sessionToken\<rparr>)))))"

definition requireSession :: "config \<Rightarrow> int \<Rightarrow> Request \<Rightarrow> world \<Rightarrow> outcome result \<times> world" where
  "requireSession cfg nowMs req =
     try_catch (sessionCookieAuth cfg nowMs req) (\<lambda>error. ret (ErrorResponse INTERNAL_ERROR []))"

definition requireAuth ::
  "config \<Rightarrow> (string \<Rightarrow> string) \<Rightarrow> int \<Rightarrow> Request \<Rightarrow> world \<Rightarrow> outcome result \<times> world" where
  "requireAuth cfg sha256 nowMs req =
     try_catch
       (case authorization req of
          None \<Rightarrow> sessionCookieAuth cfg nowMs req
        | Some authHeader \<Rightarrow>
            if authHeader \<noteq> [] \<and> take 7 authHeader = ''Bearer ''
            then (let apiKey = drop 7 authHeader
                  in bnd (on_db (validateApiKey sha256 nowMs apiKey)) (\<lambda>apiKeyRecord.
                       case apiKeyRecord of
                         Some found \<Rightarrow>
                           bnd (on_db (detached (updateLastUsed nowMs (key_id found)))) (\<lambda>_.
                           ret (Next (nothingAttached\<lparr>req_user := Some (user found), req_apiKey := Some found\<rparr>)))
                       | None \<Rightarrow> ret (ErrorResponse INVALID_TOKEN [])))
            else sessionCookieAuth cfg nowMs req)
       (\<lambda>error. ret (ErrorResponse INTERNAL_ERROR []))"

section \<open>Example data\<close>

definition ex_cfg :: config where
  "ex_cfg = \<lparr>SESSION_COOKIE_NAME = ''template_session'', SESSION_TTL_SECONDS = 86400,
             SESSION_SLIDING_EXTENSION_SECONDS = 3600\<rparr>"

definition ex_rng :: rng where
  "ex_rng i = 0"

definition ex_tok :: string where
  "ex_tok = replicate 64 (CHR ''0'')"

definition ex_redis :: redis where
  "ex_redis = \<lparr>strings = Map.empty, sets = Map.empty, faults = []\<rparr>"

text \<open>The store after a session for user u1 was created at second 1000.\<close>

definition ex_created :: redis where
  "ex_created = run ex_cfg 1000 (CreateSession ex_rng ''u1'' [USER] None) ex_redis"

definition ex_payload :: SessionPayload where
  "ex_payload = newSessionPayload ex_cfg 1000 ''u1'' [USER] None"

text \<open>
  The same store after that session was read at second 87399, one second before the
  instant its record was to expire.
\<close>

definition ex_slid :: redis where
  "ex_slid = run ex_cfg 87399 (GetSession ex_tok) ex_created"


definition ex_user1 :: User where
  "ex_user1 = \<lparr>user_id = ''u1'', email = ''Alice.Smith@example.com'', user_name = Some ''Alice'',
               user_roles = [USER], isActive = True\<rparr>"

definition ex_user2 :: User where
  "ex_user2 = \<lparr>user_id = ''u2'', email = ''bob@example.com'', user_name = None,
               user_roles = [GUEST], isActive = False\<rparr>"

definition ex_db :: database where
  "ex_db = \<lparr>users = [ex_user1, ex_user2], apiKeys = [], db_faults = []\<rparr>"

text \<open>
  In the examples an injective function stands in for the digest, and the key below is
  the row that \<open>createApiKey\<close> stores for user u1 from the random source \<open>ex_rng\<close>.
\<close>

definition ex_digest :: "string \<Rightarrow> string" where
  "ex_digest s = rev s"


definition ex_plaintext :: string where
  "ex_plaintext = ''alicesmith_'' @ replicate 128 (CHR ''0'')"

definition ex_key :: ApiKey where
  "ex_key = \<lparr>key_id = ''k1'', userId = ''u1'', key_name = Some ''ci'', keyHash = ex_digest ex_plaintext,
             key_createdAt = 500000, key_lastUsedAt = None, expiresAt = Some 9000000\<rparr>"

definition ex_db_key :: database where
  "ex_db_key = ex_db\<lparr>apiKeys := [ex_key]\<rparr>"

definition ex_found :: ApiKeyWithUser where
  "ex_found = \<lparr>key_id = ''k1'', userId = ''u1'', key_name = Some ''ci'', keyHash = ex_digest ex_plaintext,
               key_createdAt = 500000, key_lastUsedAt = None, expiresAt = Some 9000000, user = ex_user1\<rparr>"

text \<open>
  A digest of fixed length (one character, the sum of the bytes modulo 256): like every
  digest of fixed length it maps different strings to the same value, but never a string
  and a one-character variant of it. With it, the row that \<open>createApiKey\<close> stores for
  user u1 and the database holding that row.
\<close>

definition ex_checksum :: "string \<Rightarrow> string" where
  "ex_checksum s = [char_of (sum_list (map (\<lambda>c. (of_char c :: nat)) s))]"



text \<open>A database whose only key belongs to the inactive user u2.\<close>

definition ex_db_inactive :: database where
  "ex_db_inactive = ex_db\<lparr>apiKeys := [ex_key\<lparr>userId := ''u2''\<rparr>]\<rparr>"

text \<open>
  A request with a bearer key and a session cookie, one with a Basic credential and no
  cookie, and the world in which the key and the session of the examples exist.
\<close>

definition ex_world :: world where
  "ex_world = \<lparr>db = ex_db_key, store = ex_created\<rparr>"

definition ex_cookies :: "string \<rightharpoonup> string" where
  "ex_cookies = [''template_session'' \<mapsto> ex_tok]"

definition ex_bearer_request :: Request where
  "ex_bearer_request = \<lparr>authorization = Some (''Bearer '' @ ex_plaintext), cookies = ex_cookies\<rparr>"

definition ex_bad_bearer_request :: Request where
  "ex_bad_bearer_request =
     \<lparr>authorization = Some (''Bearer '' @ ex_plaintext[11 := CHR ''1'']), cookies = ex_cookies\<rparr>"

definition ex_basic_request :: Request where
  "ex_basic_request = \<lparr>authorization = Some ''Basic dXNlcjpwYXNz'', cookies = Map.empty\<rparr>"

definition ex_basic_cookie_request :: Request where
  "ex_basic_cookie_request = \<lparr>authorization = Some ''Basic dXNlcjpwYXNz'', cookies = ex_cookies\<rparr>"

section \<open>Proofs: the session store\<close>



lemma strings_consume [simp]: "strings (consume r) = strings r"
  and sets_consume [simp]: "sets (consume r) = sets r"
  by (simp_all add: consume_def)

lemma consume_no_faults: "faults r = [] \<Longrightarrow> consume r = r"
  by (simp add: consume_def)

lemma command_no_faults: "faults r = [] \<Longrightarrow> command op r = (case op r of (a, r') \<Rightarrow> (Returned a, r'))"
  by (simp add: command_def next_fault_def consume_no_faults)

lemma str_lookup_consume [simp]: "str_lookup (consume r) now k = str_lookup r now k"
  by (simp add: str_lookup_def)

lemma set_live_consume [simp]: "set_live (consume r) now k = set_live r now k"
  by (simp add: set_live_def)

lemma set_lookup_consume [simp]: "set_lookup (consume r) now k = set_lookup r now k"
  by (simp add: set_lookup_def set_live_def)

text \<open>What each command does to the keys of the store.\<close>

lemma redis_get_strings: "redis_get now k r = (res, r') \<Longrightarrow> strings r' = strings r \<and> sets r' = sets r"
  by (auto simp: redis_get_def command_def split: if_splits)

lemma redis_get_result: "redis_get now k r = (Returned v, r') \<Longrightarrow> v = str_lookup r now k"
  by (auto simp: redis_get_def command_def split: if_splits)

lemma redis_sAdd_strings: "redis_sAdd now k m r = (res, r') \<Longrightarrow> strings r' = strings r"
  by (auto simp: redis_sAdd_def command_def split: if_splits option.splits prod.splits)

lemma redis_expire_strings: "redis_expire now k s r = (res, r') \<Longrightarrow> strings r' = strings r"
  by (auto simp: redis_expire_def command_def split: if_splits option.splits prod.splits)

lemma redis_sRem_strings: "redis_sRem now k m r = (res, r') \<Longrightarrow> strings r' = strings r"
  by (auto simp: redis_sRem_def command_def split: if_splits option.splits prod.splits)

lemma redis_sMembers_strings: "redis_sMembers now k r = (res, r') \<Longrightarrow> strings r' = strings r \<and> sets r' = sets r"
  by (auto simp: redis_sMembers_def command_def split: if_splits)

lemma redis_del_strings: "redis_del ks r = (res, r') \<Longrightarrow> strings r' k = None \<or> strings r' k = strings r k"
  by (auto simp: redis_del_def command_def split: if_splits)

lemma redis_del_Returned: "redis_del ks r = (Returned u, r') \<Longrightarrow> k \<in> set ks \<Longrightarrow> strings r' k = None \<and> sets r' k = None"
  by (auto simp: redis_del_def command_def split: if_splits)

lemma redis_setEx_strings:
  "redis_setEx now k s v r = (res, r') \<Longrightarrow>
     strings r' = strings r \<or> (0 < s \<and> strings r' = (strings r)(k \<mapsto> (v, now + s)))"
  by (auto simp: redis_setEx_def command_def split: if_splits)

lemma deleteSession_strings:
  "deleteSession now tok r = (res, r') \<Longrightarrow> strings r' k = None \<or> strings r' k = strings r k"
  unfolding deleteSession_def try_catch_def bnd_def throw_err_def ret_def
  by (auto split: prod.splits result.splits option.splits
      dest!: redis_get_strings redis_sRem_strings dest: redis_del_strings[where k=k])

lemma createSession_strings:
  "createSession cfg rng now u rs md r = (res, r') \<Longrightarrow>
     strings r' = strings r \<or>
     strings r' = (strings r)(sessionKey (generateSessionToken rng) \<mapsto>
        (newSessionPayload cfg now u rs md, now + SESSION_TTL_SECONDS cfg))"
  unfolding createSession_def try_catch_def bnd_def throw_err_def ret_def Let_def
  by (auto split: prod.splits result.splits
      dest!: redis_sAdd_strings redis_expire_strings dest: redis_setEx_strings)


lemma getSession_get_threw:
  "redis_get now (sessionKey tok) r = (Threw e, r1) \<Longrightarrow> getSession cfg now tok r = (Returned None, r1)"
  by (simp add: getSession_def try_catch_def bnd_def ret_def)

lemma getSession_absent:
  "redis_get now (sessionKey tok) r = (Returned None, r1) \<Longrightarrow> getSession cfg now tok r = (Returned None, r1)"
  by (simp add: getSession_def try_catch_def bnd_def ret_def)

lemma getSession_expired:
  "redis_get now (sessionKey tok) r = (Returned (Some s), r1) \<Longrightarrow> exp s \<le> now \<Longrightarrow>
   getSession cfg now tok r = (Returned None, snd (deleteSession now tok r1))"
  by (simp add: getSession_def try_catch_def bnd_def ret_def split: prod.splits result.splits)

lemma getSession_renew:
  "redis_get now (sessionKey tok) r = (Returned (Some s), r1) \<Longrightarrow> now < exp s \<Longrightarrow>
   SESSION_SLIDING_EXTENSION_SECONDS cfg \<le> now - lastUsedAt s \<Longrightarrow>
   getSession cfg now tok r =
     (case redis_setEx now (sessionKey tok) (SESSION_TTL_SECONDS cfg)
             (s\<lparr>lastUsedAt := now, exp := now + SESSION_TTL_SECONDS cfg\<rparr>) r1 of
        (Threw e, r2) \<Rightarrow> (Returned None, r2)
      | (Returned u, r2) \<Rightarrow>
          (Returned (Some (s\<lparr>lastUsedAt := now, exp := now + SESSION_TTL_SECONDS cfg\<rparr>)), r2))"
  by (simp add: getSession_def try_catch_def bnd_def ret_def Let_def split: prod.splits result.splits)

lemma getSession_fresh:
  "redis_get now (sessionKey tok) r = (Returned (Some s), r1) \<Longrightarrow> now < exp s \<Longrightarrow>
   now - lastUsedAt s < SESSION_SLIDING_EXTENSION_SECONDS cfg \<Longrightarrow>
   getSession cfg now tok r = (Returned (Some s), r1)"
  by (simp add: getSession_def try_catch_def bnd_def ret_def)

lemma getSession_strings:
  assumes "getSession cfg now tok r = (res, r')"
  shows "strings r' k = None \<or> strings r' k = strings r k \<or>
     (\<exists>p. str_lookup r now (sessionKey tok) = Some p \<and> now < exp p \<and>
          SESSION_SLIDING_EXTENSION_SECONDS cfg \<le> now - lastUsedAt p \<and>
          strings r' k = Some (p\<lparr>lastUsedAt := now, exp := now + SESSION_TTL_SECONDS cfg\<rparr>, now + SESSION_TTL_SECONDS cfg))"
proof -
  obtain g r1 where g: "redis_get now (sessionKey tok) r = (g, r1)"
    by (cases "redis_get now (sessionKey tok) r")
  have fr: "strings r1 = strings r" using redis_get_strings[OF g] by simp
  show ?thesis
  proof (cases g)
    case (Threw e)
    with g assms fr show ?thesis by (simp add: getSession_get_threw)
  next
    case (Returned v)
    note gv = g[unfolded Returned]
    show ?thesis
    proof (cases v)
      case None
      with gv assms fr show ?thesis by (simp add: getSession_absent)
    next
      case (Some s)
      note gs = gv[unfolded Some]
      have look: "str_lookup r now (sessionKey tok) = Some s"
        using redis_get_result[OF gs] by simp
      consider (expired) "exp s \<le> now"
        | (renew) "now < exp s" "SESSION_SLIDING_EXTENSION_SECONDS cfg \<le> now - lastUsedAt s"
        | (fresh) "now < exp s" "now - lastUsedAt s < SESSION_SLIDING_EXTENSION_SECONDS cfg"
        by linarith
      then show ?thesis
      proof cases
        case expired
        have "r' = snd (deleteSession now tok r1)"
          using getSession_expired[OF gs expired, of cfg] assms by simp
        then show ?thesis
          using deleteSession_strings[of now tok r1 "fst (deleteSession now tok r1)" r' k] fr by auto
      next
        case renew
        let ?s' = "s\<lparr>lastUsedAt := now, exp := now + SESSION_TTL_SECONDS cfg\<rparr>"
        obtain w r2 where w: "redis_setEx now (sessionKey tok) (SESSION_TTL_SECONDS cfg) ?s' r1 = (w, r2)"
          by (cases "redis_setEx now (sessionKey tok) (SESSION_TTL_SECONDS cfg) ?s' r1")
        have "r' = r2"
          using getSession_renew[OF gs renew] assms w by (cases w) simp_all
        with redis_setEx_strings[OF w] fr
        have "strings r' = strings r \<or>
              strings r' = (strings r)(sessionKey tok \<mapsto> (?s', now + SESSION_TTL_SECONDS cfg))"
          by auto
        then show ?thesis
        proof
          assume "strings r' = strings r"
          then show ?thesis by simp
        next
          assume u: "strings r' = (strings r)(sessionKey tok \<mapsto> (?s', now + SESSION_TTL_SECONDS cfg))"
          show ?thesis
          proof (cases "k = sessionKey tok")
            case True
            with u look renew show ?thesis by simp
          next
            case False
            with u show ?thesis by simp
          qed
        qed
      next
        case fresh
        then show ?thesis using getSession_fresh[OF gs fresh] assms fr by simp
      qed
    qed
  qed
qed

lemma deleteAllUserSessions_strings:
  "deleteAllUserSessions now u r = (res, r') \<Longrightarrow> strings r' k = None \<or> strings r' k = strings r k"
proof -
  assume a: "deleteAllUserSessions now u r = (res, r')"
  obtain m r1 where m: "redis_sMembers now (userSessionsKey u) r = (m, r1)"
    by (cases "redis_sMembers now (userSessionsKey u) r")
  have fr: "strings r1 = strings r" using redis_sMembers_strings[OF m] by simp
  obtain d1 r2 where d1: "redis_del (map sessionKey (case m of Returned ts \<Rightarrow> ts | Threw e \<Rightarrow> [])) r1 = (d1, r2)"
    by (cases "redis_del (map sessionKey (case m of Returned ts \<Rightarrow> ts | Threw e \<Rightarrow> [])) r1")
  obtain d2 r3 where d2: "redis_del [userSessionsKey u] r2 = (d2, r3)"
    by (cases "redis_del [userSessionsKey u] r2")
  have "r' = r1 \<or> r' = r2 \<or> r' = r3"
    using a m d1 d2
    by (auto simp: deleteAllUserSessions_def try_catch_def bnd_def throw_err_def ret_def
        split: prod.splits result.splits if_splits)
  then show ?thesis
    using fr redis_del_strings[OF d1, of k] redis_del_strings[OF d2, of k] by auto
qed

lemma collectSessions_strings:
  "collectSessions now toks acc r = (res, r') \<Longrightarrow> strings r' = strings r \<and> sets r' = sets r"
proof (induction toks arbitrary: acc r)
  case Nil
  then show ?case by simp
next
  case (Cons t ts)
  then show ?case
    by (auto split: prod.splits result.splits option.splits dest!: redis_get_strings)
qed

lemma listUserSessions_strings:
  "listUserSessions now u r = (res, r') \<Longrightarrow> strings r' = strings r \<and> sets r' = sets r"
  unfolding listUserSessions_def try_catch_def bnd_def throw_err_def ret_def
  by (auto split: prod.splits result.splits
      dest!: redis_sMembers_strings collectSessions_strings)


lemma run_written:
  assumes ok: "store_ok cfg r" and S: "0 < SESSION_SLIDING_EXTENSION_SECONDS cfg"
  shows "strings (run cfg now c r) k = None \<or> strings (run cfg now c r) k = strings r k \<or>
         (\<exists>e. strings (run cfg now c r) k = Some e \<and> written cfg now e)"
proof (cases c)
  case (CreateSession g u rs md)
  have "createSession cfg g now u rs md r = (fst (createSession cfg g now u rs md r), run cfg now c r)"
    using CreateSession by simp
  from createSession_strings[OF this]
  have "strings (run cfg now c r) k = strings r k \<or>
        strings (run cfg now c r) k =
          Some (newSessionPayload cfg now u rs md, now + SESSION_TTL_SECONDS cfg)"
    by (cases "k = sessionKey (generateSessionToken g)") auto
  then show ?thesis
    by (auto simp: written_def newSessionPayload_def)
next
  case (GetSession tok)
  have "getSession cfg now tok r = (fst (getSession cfg now tok r), run cfg now c r)"
    using GetSession by simp
  from getSession_strings[OF this, of k] show ?thesis
  proof (elim disjE exE conjE)
    fix p
    assume look: "str_lookup r now (sessionKey tok) = Some p"
      and due: "SESSION_SLIDING_EXTENSION_SECONDS cfg \<le> now - lastUsedAt p"
      and st: "strings (run cfg now c r) k =
        Some (p\<lparr>lastUsedAt := now, exp := now + SESSION_TTL_SECONDS cfg\<rparr>, now + SESSION_TTL_SECONDS cfg)"
    from look obtain d where "strings r (sessionKey tok) = Some (p, d)"
      by (auto simp: str_lookup_def split: option.splits if_splits)
    with ok have "entry_ok cfg (p, d)" unfolding store_ok_def by blast
    then have "createdAt p \<le> now" using due S by (simp add: entry_ok_def)
    with st show ?thesis by (simp add: written_def)
  qed simp_all
next
  case (DeleteSession tok)
  have "deleteSession now tok r = (fst (deleteSession now tok r), run cfg now c r)"
    using DeleteSession by simp
  from deleteSession_strings[OF this, of k] show ?thesis by auto
next
  case (DeleteAllUserSessions u)
  have "deleteAllUserSessions now u r = (fst (deleteAllUserSessions now u r), run cfg now c r)"
    using DeleteAllUserSessions by simp
  from deleteAllUserSessions_strings[OF this, of k] show ?thesis by auto
next
  case (ListUserSessions u)
  have "listUserSessions now u r = (fst (listUserSessions now u r), run cfg now c r)"
    using ListUserSessions by simp
  from listUserSessions_strings[OF this] show ?thesis by simp
qed

lemma written_entry_ok: "written cfg now e \<Longrightarrow> entry_ok cfg e"
  by (auto simp: written_def entry_ok_def)

lemma run_store_ok:
  assumes ok: "store_ok cfg r" and S: "0 < SESSION_SLIDING_EXTENSION_SECONDS cfg"
  shows "store_ok cfg (run cfg now c r)"
  unfolding store_ok_def
proof (intro allI impI)
  fix k e
  assume e: "strings (run cfg now c r) k = Some e"
  from run_written[OF ok S, of now c k] e
  have "strings r k = Some e \<or> written cfg now e" by auto
  then show "entry_ok cfg e"
  proof
    assume "strings r k = Some e"
    with ok show ?thesis unfolding store_ok_def by blast
  next
    assume "written cfg now e"
    then show ?thesis by (rule written_entry_ok)
  qed
qed

lemma reach_store_ok:
  assumes "reach cfg r" and S: "0 < SESSION_SLIDING_EXTENSION_SECONDS cfg"
  shows "store_ok cfg r"
  using assms(1)
proof (induction rule: reach.induct)
  case (start r)
  then show ?case by (simp add: store_ok_def)
next
  case (step r now c)
  then show ?case using S by (simp add: run_store_ok)
qed

lemma redis_get_no_faults:
  "faults r = [] \<Longrightarrow> redis_get now k r = (Returned (str_lookup r now k), r)"
  by (simp add: redis_get_def command_no_faults)

lemma redis_setEx_no_faults:
  "faults r = [] \<Longrightarrow> 0 < s \<Longrightarrow>
   redis_setEx now k s v r = (Returned (), r\<lparr>strings := (strings r)(k \<mapsto> (v, now + s))\<rparr>)"
  by (simp add: redis_setEx_def command_no_faults)

lemma redis_sAdd_no_faults:
  assumes "faults r = []"
  shows "\<exists>r'. redis_sAdd now k m r = (Returned (), r') \<and> faults r' = [] \<and> strings r' = strings r \<and>
              set_live r' now k \<and> m \<in> set (set_lookup r' now k) \<and>
              (\<forall>k'. k' \<noteq> k \<longrightarrow> sets r' k' = sets r k')"
proof (cases "set_live r now k")
  case True
  then obtain ms dl where e: "sets r k = Some (ms, dl)"
    by (auto simp: set_live_def split: option.splits)
  let ?ms = "if m \<in> set ms then ms else ms @ [m]"
  let ?r = "r\<lparr>sets := (sets r)(k \<mapsto> (?ms, dl))\<rparr>"
  have "redis_sAdd now k m r = (Returned (), ?r)"
    using assms True e by (simp add: redis_sAdd_def command_no_faults)
  moreover have "set_live ?r now k"
    using True e by (simp add: set_live_def)
  moreover from this have "m \<in> set (set_lookup ?r now k)"
    by (simp add: set_lookup_def)
  ultimately show ?thesis using assms by auto
next
  case False
  let ?r = "r\<lparr>sets := (sets r)(k \<mapsto> ([m], None))\<rparr>"
  have "redis_sAdd now k m r = (Returned (), ?r)"
    using assms False by (simp add: redis_sAdd_def command_no_faults)
  moreover have "set_live ?r now k"
    by (simp add: set_live_def)
  moreover from this have "m \<in> set (set_lookup ?r now k)"
    by (simp add: set_lookup_def)
  ultimately show ?thesis using assms by auto
qed

lemma redis_expire_no_faults:
  assumes "faults r = []" and "0 < s" and "set_live r now k"
  shows "redis_expire now k s r =
           (Returned (), r\<lparr>sets := (sets r)(k \<mapsto> (set_lookup r now k, Some (now + s)))\<rparr>)"
  using assms by (simp add: redis_expire_def command_no_faults)

lemma createSession_no_faults:
  assumes f: "faults r = []" and t: "0 < SESSION_TTL_SECONDS cfg"
  shows "\<exists>r1. createSession cfg rng now u rs md r = (Returned (generateSessionToken rng), r1) \<and>
              faults r1 = [] \<and>
              strings r1 = (strings r)(sessionKey (generateSessionToken rng) \<mapsto>
                 (newSessionPayload cfg now u rs md, now + SESSION_TTL_SECONDS cfg)) \<and>
              (\<exists>ms. sets r1 (userSessionsKey u) = Some (ms, Some (now + SESSION_TTL_SECONDS cfg)) \<and>
                    generateSessionToken rng \<in> set ms)"
proof -
  let ?tok = "generateSessionToken rng"
  let ?p = "newSessionPayload cfg now u rs md"
  let ?ra = "r\<lparr>strings := (strings r)(sessionKey ?tok \<mapsto> (?p, now + SESSION_TTL_SECONDS cfg))\<rparr>"
  have a: "redis_setEx now (sessionKey ?tok) (SESSION_TTL_SECONDS cfg) ?p r = (Returned (), ?ra)"
    using f t by (rule redis_setEx_no_faults)
  have fa: "faults ?ra = []" using f by simp
  from redis_sAdd_no_faults[OF fa, of now "userSessionsKey u" ?tok]
  obtain rb where b: "redis_sAdd now (userSessionsKey u) ?tok ?ra = (Returned (), rb)"
    and fb: "faults rb = []" and sb: "strings rb = strings ?ra"
    and lb: "set_live rb now (userSessionsKey u)"
    and mb: "?tok \<in> set (set_lookup rb now (userSessionsKey u))"
    by blast
  let ?rc = "rb\<lparr>sets := (sets rb)(userSessionsKey u \<mapsto>
      (set_lookup rb now (userSessionsKey u), Some (now + SESSION_TTL_SECONDS cfg)))\<rparr>"
  have c: "redis_expire now (userSessionsKey u) (SESSION_TTL_SECONDS cfg) rb = (Returned (), ?rc)"
    using fb t lb by (rule redis_expire_no_faults)
  have "createSession cfg rng now u rs md r = (Returned ?tok, ?rc)"
    using a b c by (simp add: createSession_def try_catch_def bnd_def ret_def Let_def)
  moreover have "faults ?rc = []" using fb by simp
  moreover have "strings ?rc = (strings r)(sessionKey ?tok \<mapsto> (?p, now + SESSION_TTL_SECONDS cfg))"
    using sb by simp
  moreover have "sets ?rc (userSessionsKey u) =
      Some (set_lookup rb now (userSessionsKey u), Some (now + SESSION_TTL_SECONDS cfg))"
    by simp
  ultimately show ?thesis using mb by blast
qed

lemma getSession_live_fresh:
  assumes "faults r = []"
    and "strings r (sessionKey tok) = Some (p, d)" and "now < d" and "now < exp p"
    and "now - lastUsedAt p < SESSION_SLIDING_EXTENSION_SECONDS cfg"
  shows "getSession cfg now tok r = (Returned (Some p), r)"
proof -
  have "redis_get now (sessionKey tok) r = (Returned (Some p), r)"
    using assms by (simp add: redis_get_no_faults str_lookup_def)
  from getSession_fresh[OF this assms(4,5)] show ?thesis .
qed

lemma getSession_live_renew:
  assumes "faults r = []" and "0 < SESSION_TTL_SECONDS cfg"
    and "strings r (sessionKey tok) = Some (p, d)" and "now < d" and "now < exp p"
    and "SESSION_SLIDING_EXTENSION_SECONDS cfg \<le> now - lastUsedAt p"
  shows "getSession cfg now tok r =
     (Returned (Some (p\<lparr>lastUsedAt := now, exp := now + SESSION_TTL_SECONDS cfg\<rparr>)),
      r\<lparr>strings := (strings r)(sessionKey tok \<mapsto>
           (p\<lparr>lastUsedAt := now, exp := now + SESSION_TTL_SECONDS cfg\<rparr>, now + SESSION_TTL_SECONDS cfg))\<rparr>)"
proof -
  have "redis_get now (sessionKey tok) r = (Returned (Some p), r)"
    using assms by (simp add: redis_get_no_faults str_lookup_def)
  from getSession_renew[OF this assms(5,6)] show ?thesis
    using assms(1,2) by (simp add: redis_setEx_no_faults)
qed

lemma getSession_gone:
  assumes "faults r = []" and "str_lookup r now (sessionKey tok) = None"
  shows "getSession cfg now tok r = (Returned None, r)"
  using assms by (simp add: getSession_absent redis_get_no_faults)

text \<open>
  Claim C9. Under a valid configuration, every session record in a store that the
  service built, whatever the history of calls and of store failures, satisfies
  \<open>exp = lastUsedAt + SESSION_TTL_SECONDS\<close> and \<open>lastUsedAt \<ge> createdAt\<close>, and the store
  drops it \<open>SESSION_TTL_SECONDS\<close> after the instant \<open>lastUsedAt\<close> at which it was written.
  Every record that a call made at \<open>now\<close> writes (an entry that is new or differs from the
  one before the call) has \<open>lastUsedAt = now\<close>, \<open>exp = now + SESSION_TTL_SECONDS\<close> and is
  dropped at \<open>now + SESSION_TTL_SECONDS\<close>: the time to live handed to the store is
  \<open>SESSION_TTL_SECONDS\<close>, on the path of \<open>createSession\<close> and on the renewal path of
  \<open>getSession\<close> alike.
\<close>

theorem session_record_invariant:
  assumes "config_valid cfg" and "reach cfg r"
  shows "(\<forall>k p d. strings r k = Some (p, d) \<longrightarrow>
            exp p = lastUsedAt p + SESSION_TTL_SECONDS cfg \<and> createdAt p \<le> lastUsedAt p \<and>
            d = lastUsedAt p + SESSION_TTL_SECONDS cfg) \<and>
         (\<forall>now c k p d. strings (run cfg now c r) k = Some (p, d) \<longrightarrow>
            strings (run cfg now c r) k \<noteq> strings r k \<longrightarrow>
            lastUsedAt p = now \<and> exp p = now + SESSION_TTL_SECONDS cfg \<and>
            d = now + SESSION_TTL_SECONDS cfg \<and> createdAt p \<le> lastUsedAt p)"
proof (intro conjI allI impI)
  have S: "0 < SESSION_SLIDING_EXTENSION_SECONDS cfg"
    using assms(1) by (simp add: config_valid_def)
  have ok: "store_ok cfg r" using assms(2) S by (rule reach_store_ok)
  {
    fix k p d
    assume "strings r k = Some (p, d)"
    with ok have e: "entry_ok cfg (p, d)" unfolding store_ok_def by blast
    from e show "exp p = lastUsedAt p + SESSION_TTL_SECONDS cfg" by (simp add: entry_ok_def)
    from e show "createdAt p \<le> lastUsedAt p" by (simp add: entry_ok_def)
    from e show "d = lastUsedAt p + SESSION_TTL_SECONDS cfg" by (simp add: entry_ok_def)
  }
  {
    fix now c k p d
    assume s: "strings (run cfg now c r) k = Some (p, d)"
      and ne: "strings (run cfg now c r) k \<noteq> strings r k"
    from run_written[OF ok S, of now c k] s ne have w: "written cfg now (p, d)" by auto
    from w show "lastUsedAt p = now" by (simp add: written_def)
    from w show "exp p = now + SESSION_TTL_SECONDS cfg" by (simp add: written_def)
    from w show "d = now + SESSION_TTL_SECONDS cfg" by (simp add: written_def)
    from w show "createdAt p \<le> lastUsedAt p" by (simp add: written_def)
  }
qed

lemma ex_tok_eq: "generateSessionToken ex_rng = ex_tok"
  by code_simp

lemma ex_created_reach: "reach ex_cfg ex_created"
  unfolding ex_created_def
  by (rule reach.step[OF reach.start[of ex_redis ex_cfg]]) (simp_all add: ex_redis_def)

lemma ex_cfg_valid: "config_valid ex_cfg"
  by (simp add: config_valid_def ex_cfg_def)

lemma ex_created_props: 
  "createSession ex_cfg ex_rng 1000 ''u1'' [USER] None ex_redis = (Returned ex_tok, ex_created) \<and>
   faults ex_created = [] \<and>
   strings ex_created (sessionKey ex_tok) = Some (newSessionPayload ex_cfg 1000 ''u1'' [USER] None, 87400)"
proof -
  have f: "faults ex_redis = []" and t: "0 < SESSION_TTL_SECONDS ex_cfg"
    by (simp_all add: ex_redis_def ex_cfg_def)
  from createSession_no_faults[OF f t, of ex_rng 1000 "''u1''" "[USER]" None]
  show ?thesis
    by (auto simp: ex_tok_eq ex_created_def ex_cfg_def)
qed


lemma ex_created_entry: "strings ex_created (sessionKey ex_tok) = Some (ex_payload, 87400)"
  using ex_created_props by (simp add: ex_payload_def)

lemma ex_renewed:
  "getSession ex_cfg 5000 ex_tok ex_created =
     (Returned (Some (ex_payload\<lparr>lastUsedAt := 5000, exp := 91400\<rparr>)),
      ex_created\<lparr>strings := (strings ex_created)(sessionKey ex_tok \<mapsto>
         (ex_payload\<lparr>lastUsedAt := 5000, exp := 91400\<rparr>, 91400))\<rparr>)"
proof -
  have "faults ex_created = []" using ex_created_props by simp
  from getSession_live_renew[OF this _ ex_created_entry, of ex_cfg 5000]
  show ?thesis by (simp add: ex_cfg_def ex_payload_def newSessionPayload_def)
qed

theorem session_record_invariant_witness:
  "config_valid ex_cfg \<and> reach ex_cfg ex_created \<and>
   strings ex_created (sessionKey ex_tok) = Some (ex_payload, 87400) \<and>
   exp ex_payload = lastUsedAt ex_payload + SESSION_TTL_SECONDS ex_cfg \<and>
   createdAt ex_payload \<le> lastUsedAt ex_payload \<and>
   (87400 :: int) = lastUsedAt ex_payload + SESSION_TTL_SECONDS ex_cfg \<and>
   strings (run ex_cfg 5000 (GetSession ex_tok) ex_created) (sessionKey ex_tok) =
     Some (ex_payload\<lparr>lastUsedAt := 5000, exp := 91400\<rparr>, 91400) \<and>
   (91400 :: int) = 5000 + SESSION_TTL_SECONDS ex_cfg"
proof -
  note inv = session_record_invariant[OF ex_cfg_valid ex_created_reach]
  from inv ex_created_entry
  have "exp ex_payload = lastUsedAt ex_payload + SESSION_TTL_SECONDS ex_cfg \<and>
        createdAt ex_payload \<le> lastUsedAt ex_payload \<and>
        (87400 :: int) = lastUsedAt ex_payload + SESSION_TTL_SECONDS ex_cfg"
    by blast
  moreover have w: "strings (run ex_cfg 5000 (GetSession ex_tok) ex_created) (sessionKey ex_tok) =
     Some (ex_payload\<lparr>lastUsedAt := 5000, exp := 91400\<rparr>, 91400)"
    by (simp add: ex_renewed)
  moreover have ne: "strings (run ex_cfg 5000 (GetSession ex_tok) ex_created) (sessionKey ex_tok) \<noteq>
     strings ex_created (sessionKey ex_tok)"
    unfolding w ex_created_entry by simp
  have "(91400 :: int) = 5000 + SESSION_TTL_SECONDS ex_cfg"
    using inv[THEN conjunct2, rule_format, OF w ne] by simp
  ultimately show ?thesis using ex_cfg_valid ex_created_reach ex_created_entry by blast
qed

text \<open>
  Claim C1, as amended. Under a valid configuration whose sliding threshold is below the
  time to live, and a store that answers: \<open>getSession\<close> at the instant of
  \<open>createSession\<close> returns the record just written, with \<open>lastUsedAt = createdAt\<close> and
  \<open>exp = createdAt + SESSION_TTL_SECONDS\<close>, and leaves the store as it is. For a record \<open>p\<close>
  of a store the service built: a read with \<open>now' - lastUsedAt p\<close> below the threshold
  returns \<open>p\<close> and changes nothing, so \<open>exp\<close> stays; a read with \<open>now' - lastUsedAt p\<close> at or
  above the threshold, made before the record has expired (\<open>now' < exp p\<close>), returns and
  stores \<open>p\<close> with \<open>lastUsedAt = now'\<close> and \<open>exp = now' + SESSION_TTL_SECONDS\<close>, which is
  strictly later than the old \<open>exp\<close>; a read at or after \<open>exp p\<close> returns none and changes
  nothing.
\<close>

theorem sliding_expiration:
  assumes cfg: "config_valid cfg"
    and lt: "SESSION_SLIDING_EXTENSION_SECONDS cfg < SESSION_TTL_SECONDS cfg"
  shows "(faults ra = [] \<longrightarrow>
            (\<exists>r1. createSession cfg rng now u rs md ra = (Returned (generateSessionToken rng), r1) \<and>
                  getSession cfg now (generateSessionToken rng) r1 =
                    (Returned (Some (newSessionPayload cfg now u rs md)), r1)) \<and>
            lastUsedAt (newSessionPayload cfg now u rs md) = createdAt (newSessionPayload cfg now u rs md) \<and>
            createdAt (newSessionPayload cfg now u rs md) = now \<and>
            exp (newSessionPayload cfg now u rs md) =
              createdAt (newSessionPayload cfg now u rs md) + SESSION_TTL_SECONDS cfg) \<and>
         (reach cfg r \<and> faults r = [] \<and> strings r (sessionKey tok) = Some (p, d) \<longrightarrow>
            (now' - lastUsedAt p < SESSION_SLIDING_EXTENSION_SECONDS cfg \<longrightarrow>
               getSession cfg now' tok r = (Returned (Some p), r)) \<and>
            (SESSION_SLIDING_EXTENSION_SECONDS cfg \<le> now' - lastUsedAt p \<and> now' < exp p \<longrightarrow>
               (\<exists>r'. getSession cfg now' tok r =
                      (Returned (Some (p\<lparr>lastUsedAt := now', exp := now' + SESSION_TTL_SECONDS cfg\<rparr>)), r') \<and>
                    strings r' (sessionKey tok) =
                      Some (p\<lparr>lastUsedAt := now', exp := now' + SESSION_TTL_SECONDS cfg\<rparr>,
                            now' + SESSION_TTL_SECONDS cfg)) \<and>
               exp p < now' + SESSION_TTL_SECONDS cfg) \<and>
            (exp p \<le> now' \<longrightarrow> getSession cfg now' tok r = (Returned None, r)))"
proof (intro conjI impI)
  have T: "0 < SESSION_TTL_SECONDS cfg" and S: "0 < SESSION_SLIDING_EXTENSION_SECONDS cfg"
    using cfg by (simp_all add: config_valid_def)
  let ?tok = "generateSessionToken rng"
  let ?p = "newSessionPayload cfg now u rs md"
  show "lastUsedAt ?p = createdAt ?p" "createdAt ?p = now"
    "exp ?p = createdAt ?p + SESSION_TTL_SECONDS cfg"
    by (simp_all add: newSessionPayload_def)
  {
    assume f: "faults ra = []"
    from createSession_no_faults[OF f T, of rng now u rs md]
    obtain r1 where c: "createSession cfg rng now u rs md ra = (Returned ?tok, r1)"
      and f1: "faults r1 = []"
      and s1: "strings r1 (sessionKey ?tok) = Some (?p, now + SESSION_TTL_SECONDS cfg)"
      by auto
    have "getSession cfg now ?tok r1 = (Returned (Some ?p), r1)"
      using f1 s1
    proof (rule getSession_live_fresh)
      show "now < now + SESSION_TTL_SECONDS cfg" using T by simp
      show "now < exp ?p" using T by (simp add: newSessionPayload_def)
      show "now - lastUsedAt ?p < SESSION_SLIDING_EXTENSION_SECONDS cfg"
        using S by (simp add: newSessionPayload_def)
    qed
    with c show "\<exists>r1. createSession cfg rng now u rs md ra = (Returned ?tok, r1) \<and>
        getSession cfg now ?tok r1 = (Returned (Some ?p), r1)"
      by blast
  }
  {
    assume a: "reach cfg r \<and> faults r = [] \<and> strings r (sessionKey tok) = Some (p, d)"
    then have f: "faults r = []" and e: "strings r (sessionKey tok) = Some (p, d)"
      by simp_all
    from a S have "store_ok cfg r" by (simp add: reach_store_ok)
    with e have ok: "entry_ok cfg (p, d)" unfolding store_ok_def by blast
    then have d: "d = exp p" and x: "exp p = lastUsedAt p + SESSION_TTL_SECONDS cfg"
      by (simp_all add: entry_ok_def)
    {
      assume early: "now' - lastUsedAt p < SESSION_SLIDING_EXTENSION_SECONDS cfg"
      with lt x have live: "now' < exp p" by simp
      from f e live[folded d] live early show "getSession cfg now' tok r = (Returned (Some p), r)"
        by (rule getSession_live_fresh)
    }
    {
      assume b: "SESSION_SLIDING_EXTENSION_SECONDS cfg \<le> now' - lastUsedAt p \<and> now' < exp p"
      then have due: "SESSION_SLIDING_EXTENSION_SECONDS cfg \<le> now' - lastUsedAt p"
        and live: "now' < exp p"
        by simp_all
      from getSession_live_renew[OF f T e live[folded d] live due]
      show "\<exists>r'. getSession cfg now' tok r =
                      (Returned (Some (p\<lparr>lastUsedAt := now', exp := now' + SESSION_TTL_SECONDS cfg\<rparr>)), r') \<and>
                    strings r' (sessionKey tok) =
                      Some (p\<lparr>lastUsedAt := now', exp := now' + SESSION_TTL_SECONDS cfg\<rparr>,
                            now' + SESSION_TTL_SECONDS cfg)"
        by simp
      from due S x show "exp p < now' + SESSION_TTL_SECONDS cfg" by simp
    }
    {
      assume "exp p \<le> now'"
      then have "str_lookup r now' (sessionKey tok) = None"
        using e d by (simp add: str_lookup_def)
      with f show "getSession cfg now' tok r = (Returned None, r)"
        by (rule getSession_gone)
    }
  }
qed

theorem sliding_expiration_witness:
  "config_valid ex_cfg \<and> SESSION_SLIDING_EXTENSION_SECONDS ex_cfg < SESSION_TTL_SECONDS ex_cfg \<and>
   faults ex_redis = [] \<and> reach ex_cfg ex_created \<and> faults ex_created = [] \<and>
   strings ex_created (sessionKey ex_tok) = Some (ex_payload, 87400) \<and>
   (\<exists>r1. createSession ex_cfg ex_rng 1000 ''u1'' [USER] None ex_redis = (Returned ex_tok, r1) \<and>
         getSession ex_cfg 1000 ex_tok r1 = (Returned (Some ex_payload), r1)) \<and>
   getSession ex_cfg 4599 ex_tok ex_created = (Returned (Some ex_payload), ex_created) \<and>
   (\<exists>r'. getSession ex_cfg 4601 ex_tok ex_created =
           (Returned (Some (ex_payload\<lparr>lastUsedAt := 4601, exp := 91001\<rparr>)), r') \<and>
         strings r' (sessionKey ex_tok) = Some (ex_payload\<lparr>lastUsedAt := 4601, exp := 91001\<rparr>, 91001)) \<and>
   exp ex_payload = 87400 \<and>
   getSession ex_cfg 90000 ex_tok ex_created = (Returned None, ex_created)"
proof -
  have cv: "config_valid ex_cfg" by (simp add: config_valid_def ex_cfg_def)
  have lt: "SESSION_SLIDING_EXTENSION_SECONDS ex_cfg < SESSION_TTL_SECONDS ex_cfg"
    by (simp add: ex_cfg_def)
  have f0: "faults ex_redis = []" by (simp add: ex_redis_def)
  have f1: "faults ex_created = []" using ex_created_props by simp
  have x: "exp ex_payload = 87400" "lastUsedAt ex_payload = 1000"
    by (simp_all add: ex_payload_def newSessionPayload_def ex_cfg_def)
  note a = sliding_expiration[OF cv lt, where ra = ex_redis and rng = ex_rng and now = 1000
      and u = "''u1''" and rs = "[USER]" and md = None and r = ex_created
      and tok = ex_tok and p = ex_payload and d = 87400 and now' = 4599]
  note b = sliding_expiration[OF cv lt, where ra = ex_redis and rng = ex_rng and now = 1000
      and u = "''u1''" and rs = "[USER]" and md = None and r = ex_created
      and tok = ex_tok and p = ex_payload and d = 87400 and now' = 4601]
  note c = sliding_expiration[OF cv lt, where ra = ex_redis and rng = ex_rng and now = 1000
      and u = "''u1''" and rs = "[USER]" and md = None and r = ex_created
      and tok = ex_tok and p = ex_payload and d = 87400 and now' = 90000]
  have "\<exists>r1. createSession ex_cfg ex_rng 1000 ''u1'' [USER] None ex_redis = (Returned ex_tok, r1) \<and>
         getSession ex_cfg 1000 ex_tok r1 = (Returned (Some ex_payload), r1)"
    using a f0 by (simp add: ex_tok_eq ex_payload_def)
  moreover have "getSession ex_cfg 4599 ex_tok ex_created = (Returned (Some ex_payload), ex_created)"
    using a ex_created_reach f1 ex_created_entry x by (simp add: ex_cfg_def)
  moreover have "\<exists>r'. getSession ex_cfg 4601 ex_tok ex_created =
           (Returned (Some (ex_payload\<lparr>lastUsedAt := 4601, exp := 91001\<rparr>)), r') \<and>
         strings r' (sessionKey ex_tok) = Some (ex_payload\<lparr>lastUsedAt := 4601, exp := 91001\<rparr>, 91001)"
    using b ex_created_reach f1 ex_created_entry x by (simp add: ex_cfg_def)
  moreover have "getSession ex_cfg 90000 ex_tok ex_created = (Returned None, ex_created)"
    using c ex_created_reach f1 ex_created_entry x by simp
  ultimately show ?thesis using cv lt f0 f1 ex_created_reach ex_created_entry x by blast
qed

text \<open>
  The claim as stated fails once the record has expired: a session created at second
  1000 with a time to live of 86400 is read at second 87400; \<open>now - lastUsedAt\<close> is 86400,
  above the threshold 3600 (which is below the time to live), and \<open>getSession\<close> returns
  none and rewrites nothing.
\<close>

theorem sliding_expiration_counterexample:
  "createSession ex_cfg ex_rng 1000 ''u1'' [USER] None ex_redis = (Returned ex_tok, ex_created) \<and>
   strings ex_created (sessionKey ex_tok) = Some (ex_payload, 87400) \<and>
   lastUsedAt ex_payload = 1000 \<and>
   SESSION_SLIDING_EXTENSION_SECONDS ex_cfg \<le> 87400 - lastUsedAt ex_payload \<and>
   SESSION_SLIDING_EXTENSION_SECONDS ex_cfg < SESSION_TTL_SECONDS ex_cfg \<and>
   getSession ex_cfg 87400 ex_tok ex_created = (Returned None, ex_created)"
proof -
  have "getSession ex_cfg 87400 ex_tok ex_created = (Returned None, ex_created)"
    using ex_created_props by (intro getSession_gone) (simp_all add: str_lookup_def)
  then show ?thesis
    using ex_created_props ex_created_entry
    by (simp add: ex_payload_def newSessionPayload_def ex_cfg_def)
qed

lemma sessionKey_inj [simp]: "sessionKey a = sessionKey b \<longleftrightarrow> a = b"
  by (simp add: sessionKey_def)

lemma getSession_no_record:
  assumes "strings r (sessionKey tok) = None"
  shows "fst (getSession cfg now tok r) = Returned None"
proof -
  obtain g r1 where g: "redis_get now (sessionKey tok) r = (g, r1)"
    by (cases "redis_get now (sessionKey tok) r")
  show ?thesis
  proof (cases g)
    case (Threw e)
    with g show ?thesis by (simp add: getSession_get_threw)
  next
    case (Returned v)
    with g have "v = None"
      using redis_get_result[of now "sessionKey tok" r v r1] assms by (simp add: str_lookup_def)
    with g Returned show ?thesis by (simp add: getSession_absent)
  qed
qed

lemma deleteSession_removes:
  assumes "deleteSession now tok r = (Returned u, r')"
  shows "strings r' (sessionKey tok) = None"
proof -
  from assms obtain r2 where "redis_del [sessionKey tok] r2 = (Returned (), r')"
    by (auto simp: deleteSession_def try_catch_def bnd_def ret_def throw_err_def
        split: prod.splits result.splits option.splits)
  from redis_del_Returned[OF this, of "sessionKey tok"] show ?thesis by simp
qed

lemma collectSessions_tokens:
  "collectSessions now toks acc r = (Returned ms, r') \<Longrightarrow>
   tokenId ` set ms \<subseteq> tokenId ` set acc \<union> {t \<in> set toks. str_lookup r now (sessionKey t) \<noteq> None}"
proof (induction toks arbitrary: acc r)
  case Nil
  then show ?case by auto
next
  case (Cons t ts)
  obtain g r1 where g: "redis_get now (sessionKey t) r = (g, r1)"
    by (cases "redis_get now (sessionKey t) r")
  have same: "\<And>k. str_lookup r1 now k = str_lookup r now k"
    using redis_get_strings[OF g] by (simp add: str_lookup_def)
  show ?case
  proof (cases g)
    case (Threw e)
    with g Cons.prems show ?thesis by simp
  next
    case (Returned v)
    show ?thesis
    proof (cases v)
      case None
      with g Returned Cons.prems have "collectSessions now ts acc r1 = (Returned ms, r')" by simp
      from Cons.IH[OF this] show ?thesis by (auto simp: same)
    next
      case (Some s)
      with g Returned Cons.prems
      have "collectSessions now ts (acc @ [toMetadata t s]) r1 = (Returned ms, r')" by simp
      moreover have "str_lookup r now (sessionKey t) = Some s"
        using redis_get_result[of now "sessionKey t" r v r1] g Returned Some by simp
      ultimately show ?thesis
        using Cons.IH[of "acc @ [toMetadata t s]" r1] by (auto simp: same toMetadata_def)
    qed
  qed
qed

lemma listUserSessions_tokens:
  assumes "listUserSessions now u r = (Returned ms, r')"
  shows "tokenId ` set ms \<subseteq>
         {t \<in> set (set_lookup r now (userSessionsKey u)). str_lookup r now (sessionKey t) \<noteq> None}"
proof -
  from assms obtain ts r1 xs where m: "redis_sMembers now (userSessionsKey u) r = (Returned ts, r1)"
    and c: "collectSessions now ts [] r1 = (Returned xs, r')"
    and s: "ms = sort_key (\<lambda>m. - lastUsedAtDate m) xs"
    by (auto simp: listUserSessions_def try_catch_def bnd_def ret_def throw_err_def
        split: prod.splits result.splits)
  have ts: "ts = set_lookup r now (userSessionsKey u)"
    using m by (auto simp: redis_sMembers_def command_def split: if_splits)
  have same: "\<And>k. str_lookup r1 now k = str_lookup r now k"
    using redis_sMembers_strings[OF m] by (simp add: str_lookup_def)
  from collectSessions_tokens[OF c] show ?thesis
    by (auto simp: s ts same)
qed

lemma collectSessions_no_faults:
  "faults r = [] \<Longrightarrow> \<exists>ms. collectSessions now toks acc r = (Returned ms, r)"
  by (induction toks arbitrary: acc) (auto simp: redis_get_no_faults split: option.splits)

lemma listUserSessions_no_faults:
  "faults r = [] \<Longrightarrow> \<exists>ms. listUserSessions now u r = (Returned ms, r)"
  using collectSessions_no_faults[of r now "set_lookup r now (userSessionsKey u)" "[]"]
  by (auto simp: listUserSessions_def try_catch_def bnd_def ret_def redis_sMembers_def command_no_faults)

lemma deleteSession_no_faults:
  "faults r = [] \<Longrightarrow> \<exists>r'. deleteSession now tok r = (Returned (), r') \<and> faults r' = []"
  by (auto simp: deleteSession_def try_catch_def bnd_def ret_def redis_get_no_faults
      redis_sRem_def redis_del_def command_no_faults split: option.splits prod.splits)

lemma deleteAllUserSessions_no_faults:
  "faults r = [] \<Longrightarrow> \<exists>r'. deleteAllUserSessions now u r = (Returned (), r') \<and> faults r' = []"
  by (auto simp: deleteAllUserSessions_def try_catch_def bnd_def ret_def
      redis_sMembers_def redis_del_def command_no_faults)

lemma set_lookup_later:
  "set_lookup r now k = [] \<Longrightarrow> now \<le> now2 \<Longrightarrow> set_lookup r now2 k = []"
  by (auto simp: set_lookup_def set_live_def split: option.splits if_splits)

lemma deleteAllUserSessions_index:
  assumes "deleteAllUserSessions now u r = (Returned x, r')" and "now \<le> now2"
  shows "set_lookup r' now2 (userSessionsKey u) = []"
proof -
  obtain m r1 where m: "redis_sMembers now (userSessionsKey u) r = (m, r1)"
    by (cases "redis_sMembers now (userSessionsKey u) r")
  from m assms(1) obtain ts where ts: "m = Returned ts"
    by (cases m) (auto simp: deleteAllUserSessions_def try_catch_def bnd_def throw_err_def)
  have mem: "ts = set_lookup r now (userSessionsKey u)" and sets1: "sets r1 = sets r"
    using m ts by (auto simp: redis_sMembers_def command_def split: if_splits)
  show ?thesis
  proof (cases "ts = []")
    case True
    with m ts assms(1) have "r' = r1"
      by (simp add: deleteAllUserSessions_def try_catch_def bnd_def ret_def)
    moreover have "set_lookup r1 now (userSessionsKey u) = set_lookup r now (userSessionsKey u)"
      using sets1 by (simp add: set_lookup_def set_live_def)
    then have "set_lookup r1 now (userSessionsKey u) = []"
      using True mem by simp
    ultimately show ?thesis using assms(2) by (simp add: set_lookup_later)
  next
    case False
    with m ts assms(1) obtain r2 where "redis_del [userSessionsKey u] r2 = (Returned (), r')"
      by (auto simp: deleteAllUserSessions_def try_catch_def bnd_def ret_def throw_err_def
          split: prod.splits result.splits)
    from redis_del_Returned[OF this, of "userSessionsKey u"]
    show ?thesis by (simp add: set_lookup_def set_live_def)
  qed
qed

text \<open>
  Claim C7. Once \<open>deleteSession tok\<close> has returned, \<open>getSession tok\<close> returns none and no
  listing of any user (the owner included) holds \<open>tok\<close>; once \<open>deleteAllUserSessions u\<close> has
  returned, a following \<open>listUserSessions u\<close> that returns, returns the empty list. On a
  store that answers, each of these calls does return.
\<close>

theorem deleted_sessions_are_gone:
  "(deleteSession now tok r = (Returned (), r') \<longrightarrow>
      fst (getSession cfg now1 tok r') = Returned None \<and>
      (\<forall>ms r''. listUserSessions now2 u r' = (Returned ms, r'') \<longrightarrow> tok \<notin> tokenId ` set ms)) \<and>
   (deleteAllUserSessions now u r = (Returned (), r') \<and> now \<le> now2 \<longrightarrow>
      (\<forall>ms r''. listUserSessions now2 u r' = (Returned ms, r'') \<longrightarrow> ms = [])) \<and>
   (faults r = [] \<longrightarrow>
      (\<exists>ra. deleteSession now tok r = (Returned (), ra) \<and>
            getSession cfg now1 tok ra = (Returned None, ra) \<and>
            (\<exists>ms. listUserSessions now2 u ra = (Returned ms, ra) \<and> tok \<notin> tokenId ` set ms)) \<and>
      (now \<le> now2 \<longrightarrow>
         (\<exists>rb. deleteAllUserSessions now u r = (Returned (), rb) \<and>
               listUserSessions now2 u rb = (Returned [], rb))))"
proof (intro conjI impI allI)
  {
    assume d: "deleteSession now tok r = (Returned (), r')"
    from deleteSession_removes[OF d] have gone: "strings r' (sessionKey tok) = None" .
    then show "fst (getSession cfg now1 tok r') = Returned None"
      by (rule getSession_no_record)
    fix ms r''
    assume l: "listUserSessions now2 u r' = (Returned ms, r'')"
    from listUserSessions_tokens[OF l] gone show "tok \<notin> tokenId ` set ms"
      by (auto simp: str_lookup_def)
  }
  {
    fix ms r''
    assume d: "deleteAllUserSessions now u r = (Returned (), r') \<and> now \<le> now2"
      and l: "listUserSessions now2 u r' = (Returned ms, r'')"
    from d have "set_lookup r' now2 (userSessionsKey u) = []"
      by (auto intro: deleteAllUserSessions_index)
    with listUserSessions_tokens[OF l] show "ms = []" by auto
  }
  {
    assume f: "faults r = []"
    from deleteSession_no_faults[OF f, of now tok]
    obtain ra where d: "deleteSession now tok r = (Returned (), ra)" and fa: "faults ra = []"
      by blast
    from deleteSession_removes[OF d] have gone: "strings ra (sessionKey tok) = None" .
    then have g: "getSession cfg now1 tok ra = (Returned None, ra)"
      using fa by (intro getSession_gone) (simp_all add: str_lookup_def)
    from listUserSessions_no_faults[OF fa, of now2 u]
    obtain ms where l: "listUserSessions now2 u ra = (Returned ms, ra)" by blast
    from listUserSessions_tokens[OF l] gone have "tok \<notin> tokenId ` set ms"
      by (auto simp: str_lookup_def)
    with d g l show "\<exists>ra. deleteSession now tok r = (Returned (), ra) \<and>
            getSession cfg now1 tok ra = (Returned None, ra) \<and>
            (\<exists>ms. listUserSessions now2 u ra = (Returned ms, ra) \<and> tok \<notin> tokenId ` set ms)"
      by blast
    assume le: "now \<le> now2"
    from deleteAllUserSessions_no_faults[OF f, of now u]
    obtain rb where da: "deleteAllUserSessions now u r = (Returned (), rb)" and fb: "faults rb = []"
      by blast
    from listUserSessions_no_faults[OF fb, of now2 u]
    obtain ms' where l': "listUserSessions now2 u rb = (Returned ms', rb)" by blast
    from deleteAllUserSessions_index[OF da le] listUserSessions_tokens[OF l'] have "ms' = []" by auto
    with da l' show "\<exists>rb. deleteAllUserSessions now u r = (Returned (), rb) \<and>
               listUserSessions now2 u rb = (Returned [], rb)"
      by blast
  }
qed

theorem deleted_sessions_are_gone_witness:
  "faults ex_created = [] \<and>
   fst (listUserSessions 2000 ''u1'' ex_created) = Returned [toMetadata ex_tok ex_payload] \<and>
   (\<exists>ra. deleteSession 2000 ex_tok ex_created = (Returned (), ra) \<and>
         fst (getSession ex_cfg 2000 ex_tok ra) = Returned None \<and>
         getSession ex_cfg 2000 ex_tok ra = (Returned None, ra) \<and>
         (\<exists>ms. listUserSessions 2000 ''u1'' ra = (Returned ms, ra) \<and> ex_tok \<notin> tokenId ` set ms)) \<and>
   (\<exists>rb. deleteAllUserSessions 2000 ''u1'' ex_created = (Returned (), rb) \<and>
         listUserSessions 2000 ''u1'' rb = (Returned [], rb))"
proof -
  have f: "faults ex_created = []" using ex_created_props by simp
  have l: "fst (listUserSessions 2000 ''u1'' ex_created) = Returned [toMetadata ex_tok ex_payload]"
    by code_simp
  note g = deleted_sessions_are_gone[where r = ex_created and now = 2000 and tok = ex_tok
      and ?now1.0 = 2000 and ?now2.0 = 2000 and u = "''u1''" and cfg = ex_cfg]
  from g[where r' = ex_created] f
  obtain ra ms where d: "deleteSession 2000 ex_tok ex_created = (Returned (), ra)"
    and n: "getSession ex_cfg 2000 ex_tok ra = (Returned None, ra)"
    and m: "listUserSessions 2000 ''u1'' ra = (Returned ms, ra)"
    by blast
  from g[where r' = ex_created] f
  obtain rb where a: "deleteAllUserSessions 2000 ''u1'' ex_created = (Returned (), rb)"
    and e: "listUserSessions 2000 ''u1'' rb = (Returned [], rb)"
    by auto
  from g[where r' = ra] d have 1: "fst (getSession ex_cfg 2000 ex_tok ra) = Returned None"
    and 2: "\<forall>ms r''. listUserSessions 2000 ''u1'' ra = (Returned ms, r'') \<longrightarrow> ex_tok \<notin> tokenId ` set ms"
    by blast+
  from g[where r' = rb] a
  have 3: "\<forall>ms r''. listUserSessions 2000 ''u1'' rb = (Returned ms, r'') \<longrightarrow> ms = []"
    by simp
  from 2 m have 4: "ex_tok \<notin> tokenId ` set ms" by blast
  from 3 e have "([] :: SessionMetadata list) = []" by blast
  from f l d 1 n m 4 a e show ?thesis by blast
qed


text \<open>
  Claim C2 at a concrete history. The session of user u1 is created at second 1000 with
  a time to live of 86400: record and index both expire at 87400. A read at 87399 renews
  the record until 173799; the renewal calls \<^verbatim>\<open>SETEX\<close> on the record only, so the index
  still expires at 87400. From then on the record exists and \<open>getSession\<close> returns it, but
  the index of u1 has no member, \<open>listUserSessions\<close> returns the empty list, and
  \<open>deleteAllUserSessions\<close> leaves the session alive.
\<close>

theorem renewed_session_absent_from_index:
  "fst (getSession ex_cfg 87399 ex_tok ex_created) =
     Returned (Some (ex_payload\<lparr>lastUsedAt := 87399, exp := 173799\<rparr>)) \<and>
   fst (listUserSessions 87399 ''u1'' ex_slid) =
     Returned [toMetadata ex_tok (ex_payload\<lparr>lastUsedAt := 87399, exp := 173799\<rparr>)] \<and>
   str_lookup ex_slid 87400 (sessionKey ex_tok) =
     Some (ex_payload\<lparr>lastUsedAt := 87399, exp := 173799\<rparr>) \<and>
   fst (getSession ex_cfg 87400 ex_tok ex_slid) =
     Returned (Some (ex_payload\<lparr>lastUsedAt := 87399, exp := 173799\<rparr>)) \<and>
   set_lookup ex_slid 87400 (userSessionsKey ''u1'') = [] \<and>
   fst (listUserSessions 87400 ''u1'' ex_slid) = Returned [] \<and>
   fst (deleteAllUserSessions 87400 ''u1'' ex_slid) = Returned () \<and>
   fst (getSession ex_cfg 87400 ex_tok (snd (deleteAllUserSessions 87400 ''u1'' ex_slid))) =
     Returned (Some (ex_payload\<lparr>lastUsedAt := 87399, exp := 173799\<rparr>))"
  by code_simp

lemma primitive_faults:
  "redis_get now k r = (g, r1) \<Longrightarrow> faults r1 = tl (faults r)"
  "redis_setEx now k s v r = (x, r2) \<Longrightarrow> faults r2 = tl (faults r)"
  "redis_sAdd now k m r = (x, r3) \<Longrightarrow> faults r3 = tl (faults r)"
  "redis_expire now k s r = (x, r4) \<Longrightarrow> faults r4 = tl (faults r)"
  by (auto simp: redis_get_def redis_setEx_def redis_sAdd_def redis_expire_def command_def consume_def
      split: if_splits option.splits prod.splits)

lemma primitive_throws:
  "next_fault r \<Longrightarrow> \<exists>e. fst (redis_setEx now k s v r) = Threw e"
  "next_fault r \<Longrightarrow> \<exists>e. fst (redis_sAdd now k m r) = Threw e"
  "next_fault r \<Longrightarrow> \<exists>e. fst (redis_expire now k s r) = Threw e"
  by (auto simp: redis_setEx_def redis_sAdd_def redis_expire_def command_def)

lemma primitive_returns:
  "\<not> next_fault r \<Longrightarrow> 0 < s \<Longrightarrow> fst (redis_setEx now k s v r) = Returned ()"
  "\<not> next_fault r \<Longrightarrow> fst (redis_sAdd now k m r) = Returned ()"
  "\<not> next_fault r \<Longrightarrow> fst (redis_expire now k s r) = Returned ()"
  by (auto simp: redis_setEx_def redis_sAdd_def redis_expire_def command_def split: prod.splits)

lemma createSession_result:
  "fst (createSession cfg rng now u rs md r) =
     (let tok = generateSessionToken rng;
          a = redis_setEx now (sessionKey tok) (SESSION_TTL_SECONDS cfg) (newSessionPayload cfg now u rs md) r;
          b = redis_sAdd now (userSessionsKey u) tok (snd a);
          c = redis_expire now (userSessionsKey u) (SESSION_TTL_SECONDS cfg) (snd b)
      in if fst a = Returned () \<and> fst b = Returned () \<and> fst c = Returned ()
         then Returned tok else Threw ''Session creation failed'')"
  by (auto simp: createSession_def try_catch_def bnd_def ret_def throw_err_def Let_def
      split: prod.splits result.splits)

lemma take3_fault:
  "True \<in> set (take 3 fs) \<longleftrightarrow>
     (case fs of [] \<Rightarrow> False | f # _ \<Rightarrow> f) \<or>
     (case tl fs of [] \<Rightarrow> False | f # _ \<Rightarrow> f) \<or>
     (case tl (tl fs) of [] \<Rightarrow> False | f # _ \<Rightarrow> f)"
  by (cases fs; cases "tl fs"; cases "tl (tl fs)") (auto simp: numeral_3_eq_3)

lemma updateLastUsed_never_throws: "fst (updateLastUsed nowMs i d) = Returned ()"
  by (auto simp: updateLastUsed_def try_catch_def ret_def split: prod.splits result.splits)

text \<open>
  Claim C8. \<open>updateLastUsed\<close> returns whatever the database does (a failed query, a
  missing row): it never throws. \<open>createSession\<close> issues three store commands; when any
  of them fails it throws \<open>Session creation failed\<close> and returns no token, and under a
  valid configuration it returns the token when none of them fails.
\<close>

theorem error_propagation_policy:
  "fst (updateLastUsed nowMs keyId d) = Returned () \<and>
   (True \<in> set (take 3 (faults r)) \<longrightarrow>
      fst (createSession cfg rng now u rs md r) = Threw ''Session creation failed'') \<and>
   (config_valid cfg \<and> True \<notin> set (take 3 (faults r)) \<longrightarrow>
      fst (createSession cfg rng now u rs md r) = Returned (generateSessionToken rng))"
proof (intro conjI impI)
  show "fst (updateLastUsed nowMs keyId d) = Returned ()"
    by (rule updateLastUsed_never_throws)
  let ?tok = "generateSessionToken rng"
  let ?a = "redis_setEx now (sessionKey ?tok) (SESSION_TTL_SECONDS cfg) (newSessionPayload cfg now u rs md) r"
  let ?b = "redis_sAdd now (userSessionsKey u) ?tok (snd ?a)"
  let ?c = "redis_expire now (userSessionsKey u) (SESSION_TTL_SECONDS cfg) (snd ?b)"
  have fa: "faults (snd ?a) = tl (faults r)"
    by (rule primitive_faults(2)[of now _ _ _ r "fst ?a"]) simp
  have fb: "faults (snd ?b) = tl (tl (faults r))"
    using primitive_faults(3)[of now _ _ "snd ?a" "fst ?b" "snd ?b"] fa by simp
  have nf: "next_fault r = (case faults r of [] \<Rightarrow> False | f # _ \<Rightarrow> f)"
    "next_fault (snd ?a) = (case tl (faults r) of [] \<Rightarrow> False | f # _ \<Rightarrow> f)"
    "next_fault (snd ?b) = (case tl (tl (faults r)) of [] \<Rightarrow> False | f # _ \<Rightarrow> f)"
    by (simp_all add: next_fault_def fa fb)
  {
    assume "True \<in> set (take 3 (faults r))"
    then have "next_fault r \<or> next_fault (snd ?a) \<or> next_fault (snd ?b)"
      by (simp add: take3_fault nf)
    then have "(\<exists>e. fst ?a = Threw e) \<or> (\<exists>e. fst ?b = Threw e) \<or> (\<exists>e. fst ?c = Threw e)"
      using primitive_throws(1)[of r] primitive_throws(2)[of "snd ?a"] primitive_throws(3)[of "snd ?b"]
      by blast
    then show "fst (createSession cfg rng now u rs md r) = Threw ''Session creation failed''"
      by (auto simp: createSession_result Let_def)
  }
  {
    assume "config_valid cfg \<and> True \<notin> set (take 3 (faults r))"
    then have T: "0 < SESSION_TTL_SECONDS cfg"
      and n: "\<not> next_fault r" "\<not> next_fault (snd ?a)" "\<not> next_fault (snd ?b)"
      by (simp_all add: config_valid_def take3_fault nf)
    show "fst (createSession cfg rng now u rs md r) = Returned ?tok"
      using primitive_returns(1)[OF n(1) T] primitive_returns(2)[OF n(2)] primitive_returns(3)[OF n(3)]
      by (simp add: createSession_result Let_def)
  }
qed


theorem error_propagation_policy_witness:
  "fst (updateLastUsed 5 ''k1'' (ex_db\<lparr>db_faults := [True]\<rparr>)) = Returned () \<and>
   True \<in> set (take 3 (faults (ex_redis\<lparr>faults := [False, True]\<rparr>))) \<and>
   fst (createSession ex_cfg ex_rng 1000 ''u1'' [USER] None (ex_redis\<lparr>faults := [False, True]\<rparr>)) =
     Threw ''Session creation failed'' \<and>
   config_valid ex_cfg \<and> True \<notin> set (take 3 (faults ex_redis)) \<and>
   fst (createSession ex_cfg ex_rng 1000 ''u1'' [USER] None ex_redis) = Returned ex_tok"
proof -
  have cv: "config_valid ex_cfg" by (simp add: config_valid_def ex_cfg_def)
  have a: "True \<in> set (take 3 (faults (ex_redis\<lparr>faults := [False, True]\<rparr>)))" by simp
  have b: "True \<notin> set (take 3 (faults ex_redis))" by (simp add: ex_redis_def)
  from error_propagation_policy[where nowMs = 5 and keyId = "''k1''" and d = "ex_db\<lparr>db_faults := [True]\<rparr>"
      and r = "ex_redis\<lparr>faults := [False, True]\<rparr>" and cfg = ex_cfg and rng = ex_rng and now = 1000
      and u = "''u1''" and rs = "[USER]" and md = None]
    error_propagation_policy[where r = ex_redis and cfg = ex_cfg and rng = ex_rng and now = 1000
      and u = "''u1''" and rs = "[USER]" and md = None]
    cv a b
  show ?thesis by (simp add: ex_tok_eq)
qed

section \<open>Proofs: the role authorizer\<close>

text \<open>
  Claim C6. The hierarchy is ADMIN over ADMIN, USER, GUEST; USER over USER, GUEST; GUEST
  over GUEST. With hierarchical checking (the default, also when asked for), a principal
  whose roles contain ADMIN passes \<open>hasRolePermission\<close> for USER and for GUEST and passes the
  middleware's test for every required set that names USER or GUEST; a principal whose
  role set is exactly GUEST fails \<open>hasRolePermission\<close> for ADMIN and fails the
  middleware's test for every required set without GUEST (the set with ADMIN alone among
  them). With hierarchical checking switched off, access is membership of the required
  role in the principal's roles, and for the middleware a common element of the two sets.
\<close>


theorem role_hierarchy_check:
  "set (ROLE_HIERARCHY ADMIN) = {ADMIN, USER, GUEST} \<and>
   set (ROLE_HIERARCHY USER) = {USER, GUEST} \<and>
   set (ROLE_HIERARCHY GUEST) = {GUEST} \<and>
   (ADMIN \<in> set userRoles \<longrightarrow>
      hasRolePermission userRoles USER None \<and> hasRolePermission userRoles GUEST None \<and>
      (USER \<in> set allowedRoles \<or> GUEST \<in> set allowedRoles \<longrightarrow>
         hasRequiredRole allowedRoles None userRoles)) \<and>
   (set userRoles = {GUEST} \<longrightarrow>
      \<not> hasRolePermission userRoles ADMIN None \<and>
      (GUEST \<notin> set allowedRoles \<longrightarrow> \<not> hasRequiredRole allowedRoles None userRoles)) \<and>
   hasRolePermission userRoles requiredRole (Some True) = hasRolePermission userRoles requiredRole None \<and>
   hasRequiredRole allowedRoles (Some True) userRoles = hasRequiredRole allowedRoles None userRoles \<and>
   (hasRolePermission userRoles requiredRole (Some False) \<longleftrightarrow> requiredRole \<in> set userRoles) \<and>
   (hasRequiredRole allowedRoles (Some False) userRoles \<longleftrightarrow> set allowedRoles \<inter> set userRoles \<noteq> {})"
proof (intro conjI impI)
  show "set (ROLE_HIERARCHY ADMIN) = {ADMIN, USER, GUEST}"
    "set (ROLE_HIERARCHY USER) = {USER, GUEST}" "set (ROLE_HIERARCHY GUEST) = {GUEST}"
    by (auto simp: ROLE_HIERARCHY_def)
  show "hasRolePermission userRoles requiredRole (Some True) = hasRolePermission userRoles requiredRole None"
    "hasRequiredRole allowedRoles (Some True) userRoles = hasRequiredRole allowedRoles None userRoles"
    by (simp_all add: hasRolePermission_def hasRequiredRole_def)
  show "hasRolePermission userRoles requiredRole (Some False) \<longleftrightarrow> requiredRole \<in> set userRoles"
    by (simp add: hasRolePermission_def)
  show "hasRequiredRole allowedRoles (Some False) userRoles \<longleftrightarrow> set allowedRoles \<inter> set userRoles \<noteq> {}"
    by (auto simp: hasRequiredRole_def list_ex_iff)
  {
    assume a: "ADMIN \<in> set userRoles"
    then show "hasRolePermission userRoles USER None" "hasRolePermission userRoles GUEST None"
      by (auto simp: hasRolePermission_def list_ex_iff ROLE_HIERARCHY_def intro!: bexI[of _ ADMIN])
    assume "USER \<in> set allowedRoles \<or> GUEST \<in> set allowedRoles"
    then obtain q where q: "q \<in> set allowedRoles" "q \<in> set (ROLE_HIERARCHY ADMIN)"
      by (auto simp: ROLE_HIERARCHY_def)
    with a show "hasRequiredRole allowedRoles None userRoles"
      unfolding hasRequiredRole_def Let_def list_ex_iff by (simp; blast)
  }
  {
    assume g: "set userRoles = {GUEST}"
    then show "\<not> hasRolePermission userRoles ADMIN None"
      by (simp add: hasRolePermission_def list_ex_iff ROLE_HIERARCHY_def)
    assume "GUEST \<notin> set allowedRoles"
    with g show "\<not> hasRequiredRole allowedRoles None userRoles"
      by (auto simp: hasRequiredRole_def list_ex_iff ROLE_HIERARCHY_def)
  }
qed

theorem role_hierarchy_check_witness:
  "ADMIN \<in> set [ADMIN] \<and> hasRolePermission [ADMIN] USER None \<and> hasRolePermission [ADMIN] GUEST None \<and>
   hasRequiredRole [USER] None [ADMIN] \<and>
   set [GUEST] = {GUEST} \<and> \<not> hasRolePermission [GUEST] ADMIN None \<and>
   \<not> hasRequiredRole [ADMIN] None [GUEST] \<and>
   \<not> hasRolePermission [ADMIN] USER (Some False)"
  using role_hierarchy_check[where userRoles = "[ADMIN]" and allowedRoles = "[USER]" and requiredRole = USER]
    role_hierarchy_check[where userRoles = "[GUEST]" and allowedRoles = "[ADMIN]"]
  by simp

section \<open>Proofs: API keys\<close>











lemma db_consume_no_faults: "db_faults d = [] \<Longrightarrow> db_consume d = d"
  by (simp add: db_consume_def)

lemma query_no_faults: "db_faults d = [] \<Longrightarrow> query op d = op d"
  by (simp add: query_def db_next_fault_def db_consume_no_faults)

lemma db_consume_tables [simp]: "users (db_consume d) = users d" "apiKeys (db_consume d) = apiKeys d"
  by (simp_all add: db_consume_def)



lemma withActiveUser_Some:
  "withActiveUser us k = Some found \<Longrightarrow>
     keyHash found = keyHash k \<and> key_id found = key_id k \<and> userId found = userId k \<and>
     expiresAt found = expiresAt k \<and>
     find (\<lambda>u. user_id u = userId k) us = Some (user found) \<and> isActive (user found)"
  by (auto simp: withActiveUser_def split: option.splits if_splits)

lemma firstByHash_Some:
  "firstByHash us h ks = Some found \<Longrightarrow>
     keyHash found = h \<and> isActive (user found) \<and> user_id (user found) = userId found \<and>
     user found \<in> set us \<and>
     (\<exists>k\<in>set ks. key_id found = key_id k \<and> userId found = userId k \<and> expiresAt found = expiresAt k \<and>
        keyHash k = h)"
proof (induction ks)
  case Nil
  then show ?case by simp
next
  case (Cons k ks)
  show ?case
  proof (cases "keyHash k = h \<and> withActiveUser us k \<noteq> None")
    case True
    then have w: "withActiveUser us k = Some found" using Cons.prems by auto
    from withActiveUser_Some[OF w] True show ?thesis
      by (auto simp: find_Some_iff)
  next
    case False
    then have "firstByHash us h ks = Some found" using Cons.prems by (auto split: if_splits)
    from Cons.IH[OF this] show ?thesis by auto
  qed
qed

lemma firstByHash_None_iff:
  "firstByHash us h ks = None \<longleftrightarrow> (\<forall>k\<in>set ks. keyHash k = h \<longrightarrow> withActiveUser us k = None)"
  by (induction ks) (auto split: option.splits)

lemma withActiveUser_None_iff:
  "withActiveUser us k = None \<longleftrightarrow>
     (case find (\<lambda>u. user_id u = userId k) us of None \<Rightarrow> True | Some u \<Rightarrow> \<not> isActive u)"
  by (simp add: withActiveUser_def split: option.splits)

lemma constantTimeCompare_same: "constantTimeCompare h h = Returned True"
  by (simp add: constantTimeCompare_def timingSafeEqual_def)


lemma validateApiKey_result:
  "fst (validateApiKey sha t s d) =
     (if \<not> validateApiKeyFormat s \<or> db_next_fault d then Returned None
      else (case firstByHash (users d) (sha s) (apiKeys d) of
              None \<Rightarrow> Returned None
            | Some found \<Rightarrow> if unexpired (expiresAt found) t then Returned (Some found) else Returned None))"
proof -
  have "\<And>found. firstByHash (users d) (sha s) (apiKeys d) = Some found \<Longrightarrow>
          constantTimeCompare (sha s) (keyHash found) = Returned True"
    using firstByHash_Some by (fastforce simp: constantTimeCompare_same)
  then show ?thesis
    by (auto simp: validateApiKey_def try_catch_def bnd_def ret_def Let_def pure_call_def
        prisma_apiKey_findFirst_def query_def unexpired_def split: option.splits)
qed

lemma validateApiKey_malformed:
  "\<not> validateApiKeyFormat s \<Longrightarrow> validateApiKey sha t s d = (Returned None, d)"
  by (simp add: validateApiKey_def try_catch_def ret_def)

lemma validateApiKey_state:
  "db_faults d = [] \<Longrightarrow> snd (validateApiKey sha t s d) = d"
  by (auto simp: validateApiKey_def try_catch_def bnd_def ret_def Let_def pure_call_def
      prisma_apiKey_findFirst_def query_no_faults split: option.splits result.splits)

lemma validateApiKey_never_throws: "\<exists>v. fst (validateApiKey sha t s d) = Returned v"
  by (simp add: validateApiKey_result split: option.splits)












text \<open>The checksum is not injective: it has the same value on a string and its reverse.\<close>

lemma ex_checksum_collides: "''ab'' \<noteq> ''ba'' \<and> ex_checksum ''ab'' = ex_checksum ''ba''"
  by code_simp


text \<open>
  Claim C5. \<open>validateApiKey\<close> never throws: for every input it returns a principal or none.
  It returns none for a malformed key (without touching the database); when every stored
  row with the matching hash has a missing or inactive owner (in particular when no row
  has the hash); when the row found has an expiry date at or before now, although the
  format check passed and the hash matched; and when the database query fails. All these
  failures give the caller the one value none. A success returns the stored row with its
  owner's user record, the owner active, the row's hash the digest of the input and the
  row not expired.
\<close>

theorem validateApiKey_failures_are_none:
  "(\<exists>v. fst (validateApiKey sha t s d) = Returned v) \<and>
   (\<not> validateApiKeyFormat s \<longrightarrow> validateApiKey sha t s d = (Returned None, d)) \<and>
   ((\<forall>k\<in>set (apiKeys d). keyHash k = sha s \<longrightarrow>
        (case find (\<lambda>u. user_id u = userId k) (users d) of None \<Rightarrow> True | Some u \<Rightarrow> \<not> isActive u)) \<longrightarrow>
      fst (validateApiKey sha t s d) = Returned None) \<and>
   (validateApiKeyFormat s \<and> firstByHash (users d) (sha s) (apiKeys d) = Some found \<and>
    expiresAt found = Some e \<and> e \<le> t \<longrightarrow>
      keyHash found = sha s \<and> fst (validateApiKey sha t s d) = Returned None) \<and>
   (db_next_fault d \<longrightarrow> fst (validateApiKey sha t s d) = Returned None) \<and>
   (fst (validateApiKey sha t s d) = Returned (Some r) \<longrightarrow>
      validateApiKeyFormat s \<and> keyHash r = sha s \<and> unexpired (expiresAt r) t \<and>
      isActive (user r) \<and> user_id (user r) = userId r \<and> user r \<in> set (users d) \<and>
      (\<exists>k\<in>set (apiKeys d). key_id r = key_id k \<and> userId r = userId k \<and> keyHash k = sha s))"
proof (intro conjI impI)
  show "\<exists>v. fst (validateApiKey sha t s d) = Returned v"
    by (rule validateApiKey_never_throws)
  show "validateApiKey sha t s d = (Returned None, d)" if "\<not> validateApiKeyFormat s"
    using that by (rule validateApiKey_malformed)
  show "fst (validateApiKey sha t s d) = Returned None"
    if "\<forall>k\<in>set (apiKeys d). keyHash k = sha s \<longrightarrow>
        (case find (\<lambda>u. user_id u = userId k) (users d) of None \<Rightarrow> True | Some u \<Rightarrow> \<not> isActive u)"
  proof -
    from that have "firstByHash (users d) (sha s) (apiKeys d) = None"
      by (simp add: firstByHash_None_iff withActiveUser_None_iff)
    then show ?thesis by (simp add: validateApiKey_result)
  qed
  show "fst (validateApiKey sha t s d) = Returned None" if "db_next_fault d"
    using that by (simp add: validateApiKey_result)
  {
    assume a: "validateApiKeyFormat s \<and> firstByHash (users d) (sha s) (apiKeys d) = Some found \<and>
      expiresAt found = Some e \<and> e \<le> t"
    then show "keyHash found = sha s" using firstByHash_Some by blast
    from a show "fst (validateApiKey sha t s d) = Returned None"
      by (simp add: validateApiKey_result unexpired_def)
  }
  {
    assume a: "fst (validateApiKey sha t s d) = Returned (Some r)"
    then have f: "validateApiKeyFormat s" and l: "firstByHash (users d) (sha s) (apiKeys d) = Some r"
      and x: "unexpired (expiresAt r) t"
      by (auto simp: validateApiKey_result split: if_splits option.splits)
    from f show "validateApiKeyFormat s" .
    from x show "unexpired (expiresAt r) t" .
    from firstByHash_Some[OF l]
    show "keyHash r = sha s" "isActive (user r)" "user_id (user r) = userId r" "user r \<in> set (users d)"
      "\<exists>k\<in>set (apiKeys d). key_id r = key_id k \<and> userId r = userId k \<and> keyHash k = sha s"
      by auto
  }
qed

theorem validateApiKey_failures_are_none_witness:
  "\<not> validateApiKeyFormat ''not-a-key'' \<and>
   validateApiKey ex_digest 2000000 ''not-a-key'' ex_db_key = (Returned None, ex_db_key) \<and>
   validateApiKeyFormat ex_plaintext \<and>
   fst (validateApiKey ex_digest 2000000 ex_plaintext ex_db_inactive) = Returned None \<and>
   firstByHash (users ex_db_key) (ex_digest ex_plaintext) (apiKeys ex_db_key) = Some ex_found \<and>
   expiresAt ex_found = Some 9000000 \<and>
   fst (validateApiKey ex_digest 9000000 ex_plaintext ex_db_key) = Returned None \<and>
   db_next_fault (ex_db_key\<lparr>db_faults := [True]\<rparr>) \<and>
   fst (validateApiKey ex_digest 2000000 ex_plaintext (ex_db_key\<lparr>db_faults := [True]\<rparr>)) = Returned None \<and>
   fst (validateApiKey ex_digest 2000000 ex_plaintext ex_db_key) = Returned (Some ex_found) \<and>
   user ex_found = ex_user1 \<and> isActive (user ex_found) \<and> unexpired (expiresAt ex_found) 2000000"
proof -
  have bad: "\<not> validateApiKeyFormat ''not-a-key''" by code_simp
  have good: "validateApiKeyFormat ex_plaintext" by code_simp
  have look: "firstByHash (users ex_db_key) (ex_digest ex_plaintext) (apiKeys ex_db_key) = Some ex_found"
    by code_simp
  have ex: "expiresAt ex_found = Some 9000000" "user ex_found = ex_user1"
    by (simp_all add: ex_found_def)
  have inactive: "\<forall>k\<in>set (apiKeys ex_db_inactive). keyHash k = ex_digest ex_plaintext \<longrightarrow>
      (case find (\<lambda>u. user_id u = userId k) (users ex_db_inactive) of None \<Rightarrow> True | Some u \<Rightarrow> \<not> isActive u)"
    by (simp add: ex_db_inactive_def ex_db_def ex_key_def ex_user1_def ex_user2_def)
  have fault: "db_next_fault (ex_db_key\<lparr>db_faults := [True]\<rparr>)"
    by (simp add: db_next_fault_def)
  have ok: "fst (validateApiKey ex_digest 2000000 ex_plaintext ex_db_key) = Returned (Some ex_found)"
    by code_simp
  note a = validateApiKey_failures_are_none[where sha = ex_digest and t = 2000000 and s = "''not-a-key''"
      and d = ex_db_key]
  note b = validateApiKey_failures_are_none[where sha = ex_digest and t = 2000000 and s = ex_plaintext
      and d = ex_db_inactive]
  note c = validateApiKey_failures_are_none[where sha = ex_digest and t = 9000000 and s = ex_plaintext
      and d = ex_db_key and found = ex_found and e = 9000000]
  note d = validateApiKey_failures_are_none[where sha = ex_digest and t = 2000000 and s = ex_plaintext
      and d = "ex_db_key\<lparr>db_faults := [True]\<rparr>"]
  note e = validateApiKey_failures_are_none[where sha = ex_digest and t = 2000000 and s = ex_plaintext
      and d = ex_db_key and r = ex_found]
  from a bad have 1: "validateApiKey ex_digest 2000000 ''not-a-key'' ex_db_key = (Returned None, ex_db_key)"
    by blast
  from b inactive have 2: "fst (validateApiKey ex_digest 2000000 ex_plaintext ex_db_inactive) = Returned None"
    by blast
  from c good look ex have 3: "fst (validateApiKey ex_digest 9000000 ex_plaintext ex_db_key) = Returned None"
    by simp
  from d fault
  have 4: "fst (validateApiKey ex_digest 2000000 ex_plaintext (ex_db_key\<lparr>db_faults := [True]\<rparr>)) = Returned None"
    by blast
  from e ok have 5: "isActive (user ex_found)" "unexpired (expiresAt ex_found) 2000000"
    by blast+
  from bad 1 good 2 look ex 3 fault 4 ok 5 show ?thesis by blast
qed

section \<open>Proofs: the unified authenticator\<close>

lemma sessionCookieAuth_authorization [simp]:
  "sessionCookieAuth cfg t (req\<lparr>authorization := x\<rparr>) = sessionCookieAuth cfg t req"
  by (simp add: sessionCookieAuth_def)

lemma sessionCookieAuth_no_cookie:
  "cookies req (SESSION_COOKIE_NAME cfg) = None \<Longrightarrow>
   sessionCookieAuth cfg t req w = (Returned (ErrorResponse AUTHENTICATION_REQUIRED []), w)"
  by (simp add: sessionCookieAuth_def ret_def)

text \<open>
  Claim C10. When the Authorization header is present but does not start with the
  prefix \<open>Bearer \<close> (with the space), \<open>requireAuth\<close> does exactly what it does for a
  request without that header, which is what \<open>requireSession\<close> does: the session-cookie
  steps. With no session cookie the outcome is \<open>AUTHENTICATION_REQUIRED\<close>, and nothing is
  read or written.
\<close>

theorem non_bearer_header_falls_back:
  assumes "authorization req = Some h" and "take 7 h \<noteq> ''Bearer ''"
  shows "requireAuth cfg sha nowMs req w = requireAuth cfg sha nowMs (req\<lparr>authorization := None\<rparr>) w \<and>
         requireAuth cfg sha nowMs req w = requireSession cfg nowMs req w \<and>
         (cookies req (SESSION_COOKIE_NAME cfg) = None \<longrightarrow>
            requireAuth cfg sha nowMs req w = (Returned (ErrorResponse AUTHENTICATION_REQUIRED []), w))"
  using assms
  by (simp add: requireAuth_def requireSession_def try_catch_def sessionCookieAuth_no_cookie)

lemma requireAuth_bearer:
  assumes "authorization req = Some (''Bearer '' @ tok)"
  shows "requireAuth cfg sha nowMs req w =
     (case validateApiKey sha nowMs tok (db w) of
        (Returned (Some found), d1) \<Rightarrow>
          (Returned (Next (nothingAttached\<lparr>req_user := Some (user found), req_apiKey := Some found\<rparr>)),
           w\<lparr>db := snd (updateLastUsed nowMs (key_id found) d1)\<rparr>)
      | (Returned None, d1) \<Rightarrow> (Returned (ErrorResponse INVALID_TOKEN []), w\<lparr>db := d1\<rparr>)
      | (Threw e, d1) \<Rightarrow> (Returned (ErrorResponse INTERNAL_ERROR []), w\<lparr>db := d1\<rparr>))"
  using assms
  by (simp add: requireAuth_def try_catch_def bnd_def ret_def on_db_def detached_def Let_def
      split: prod.splits result.splits option.splits)


lemma ex_basic_header: "authorization ex_basic_request = Some ''Basic dXNlcjpwYXNz''"
  "take 7 ''Basic dXNlcjpwYXNz'' \<noteq> ''Bearer ''"
  "cookies ex_basic_request (SESSION_COOKIE_NAME ex_cfg) = None"
  by (simp_all add: ex_basic_request_def)

theorem non_bearer_header_falls_back_witness:
  "authorization ex_basic_request = Some ''Basic dXNlcjpwYXNz'' \<and>
   take 7 ''Basic dXNlcjpwYXNz'' \<noteq> ''Bearer '' \<and>
   cookies ex_basic_request (SESSION_COOKIE_NAME ex_cfg) = None \<and>
   requireAuth ex_cfg ex_digest 2000000 ex_basic_request ex_world =
     (Returned (ErrorResponse AUTHENTICATION_REQUIRED []), ex_world) \<and>
   requireAuth ex_cfg ex_digest 2000000 ex_basic_request ex_world =
     requireSession ex_cfg 2000000 ex_basic_request ex_world \<and>
   fst (requireAuth ex_cfg ex_digest 2000000 ex_basic_cookie_request ex_world) =
     Returned (Next (nothingAttached\<lparr>req_user := Some ex_user1, req_session := Some ex_payload,
                                      req_sessionToken := Some ex_tok\<rparr>))"
proof -
  have "fst (requireAuth ex_cfg ex_digest 2000000 ex_basic_cookie_request ex_world) =
     Returned (Next (nothingAttached\<lparr>req_user := Some ex_user1, req_session := Some ex_payload,
                                      req_sessionToken := Some ex_tok\<rparr>))"
    by code_simp
  with non_bearer_header_falls_back[OF ex_basic_header(1,2), of ex_cfg ex_digest 2000000 ex_world]
    ex_basic_header
  show ?thesis by blast
qed

text \<open>
  Claim C4. For a request whose Authorization header is \<open>Bearer \<close> followed by a token,
  \<open>requireAuth\<close> validates the token as an API key and does nothing else. \<open>validateApiKey\<close>
  always returns; when it returns a key record the outcome is \<open>next()\<close> with the record's
  user and the record attached, and \<open>updateLastUsed\<close> has been started on the database
  (whatever becomes of it, the outcome stands); when it returns none the outcome is
  \<open>INVALID_TOKEN\<close>, with no cookie cleared. The session store is left as it was, and the
  outcome and the database afterwards are the same whatever cookies the request carries
  and whatever the session store holds: the session cookie is never consulted.
\<close>

theorem bearer_is_exclusive:
  assumes "authorization req = Some (''Bearer '' @ tok)"
  shows "(\<exists>v d1. validateApiKey sha nowMs tok (db w) = (Returned v, d1)) \<and>
         (\<forall>found d1. validateApiKey sha nowMs tok (db w) = (Returned (Some found), d1) \<longrightarrow>
            requireAuth cfg sha nowMs req w =
              (Returned (Next (nothingAttached\<lparr>req_user := Some (user found), req_apiKey := Some found\<rparr>)),
               w\<lparr>db := snd (updateLastUsed nowMs (key_id found) d1)\<rparr>)) \<and>
         (\<forall>d1. validateApiKey sha nowMs tok (db w) = (Returned None, d1) \<longrightarrow>
            requireAuth cfg sha nowMs req w =
              (Returned (ErrorResponse INVALID_TOKEN []), w\<lparr>db := d1\<rparr>)) \<and>
         store (snd (requireAuth cfg sha nowMs req w)) = store w \<and>
         requireAuth cfg sha nowMs (req\<lparr>cookies := c'\<rparr>) (w\<lparr>store := s'\<rparr>) =
           (fst (requireAuth cfg sha nowMs req w), (snd (requireAuth cfg sha nowMs req w))\<lparr>store := s'\<rparr>)"
proof -
  obtain x d1 where v: "validateApiKey sha nowMs tok (db w) = (x, d1)"
    by (cases "validateApiKey sha nowMs tok (db w)")
  from validateApiKey_never_throws[of sha nowMs tok "db w"] v
  obtain y where x: "x = Returned y" by auto
  have a: "authorization (req\<lparr>cookies := c'\<rparr>) = Some (''Bearer '' @ tok)"
    using assms by simp
  show ?thesis
    unfolding requireAuth_bearer[OF assms] requireAuth_bearer[OF a]
    using v x by (cases y) simp_all
qed

lemma ex_bearer_header:
  "authorization ex_bearer_request = Some (''Bearer '' @ ex_plaintext)"
  "authorization ex_bad_bearer_request = Some (''Bearer '' @ ex_plaintext[11 := CHR ''1''])"
  by (simp_all add: ex_bearer_request_def ex_bad_bearer_request_def)

theorem bearer_is_exclusive_witness:
  "authorization ex_bearer_request = Some (''Bearer '' @ ex_plaintext) \<and>
   cookies ex_bearer_request (SESSION_COOKIE_NAME ex_cfg) = Some ex_tok \<and>
   validateApiKey ex_digest 2000000 ex_plaintext (db ex_world) = (Returned (Some ex_found), db ex_world) \<and>
   requireAuth ex_cfg ex_digest 2000000 ex_bearer_request ex_world =
     (Returned (Next (nothingAttached\<lparr>req_user := Some ex_user1, req_apiKey := Some ex_found\<rparr>)),
      ex_world\<lparr>db := snd (updateLastUsed 2000000 ''k1'' (db ex_world))\<rparr>) \<and>
   apiKeys (snd (updateLastUsed 2000000 ''k1'' (db ex_world))) = [ex_key\<lparr>key_lastUsedAt := Some 2000000\<rparr>] \<and>
   authorization ex_bad_bearer_request = Some (''Bearer '' @ ex_plaintext[11 := CHR ''1'']) \<and>
   cookies ex_bad_bearer_request (SESSION_COOKIE_NAME ex_cfg) = Some ex_tok \<and>
   fst (getSession ex_cfg 2000 ex_tok (store ex_world)) = Returned (Some ex_payload) \<and>
   validateApiKey ex_digest 2000000 (ex_plaintext[11 := CHR ''1'']) (db ex_world) = (Returned None, db ex_world) \<and>
   requireAuth ex_cfg ex_digest 2000000 ex_bad_bearer_request ex_world =
     (Returned (ErrorResponse INVALID_TOKEN []), ex_world)"
proof -
  have nf: "db_faults (db ex_world) = []"
    by (simp add: ex_world_def ex_db_key_def ex_db_def)
  have "fst (validateApiKey ex_digest 2000000 ex_plaintext (db ex_world)) = Returned (Some ex_found)"
    by code_simp
  with validateApiKey_state[OF nf, of ex_digest 2000000 ex_plaintext]
  have ok: "validateApiKey ex_digest 2000000 ex_plaintext (db ex_world) = (Returned (Some ex_found), db ex_world)"
    by (metis prod.collapse)
  have "fst (validateApiKey ex_digest 2000000 (ex_plaintext[11 := CHR ''1'']) (db ex_world)) = Returned None"
    by code_simp
  with validateApiKey_state[OF nf, of ex_digest 2000000 "ex_plaintext[11 := CHR ''1'']"]
  have bad: "validateApiKey ex_digest 2000000 (ex_plaintext[11 := CHR ''1'']) (db ex_world) =
      (Returned None, db ex_world)"
    by (metis prod.collapse)
  have c: "cookies ex_bearer_request (SESSION_COOKIE_NAME ex_cfg) = Some ex_tok"
    "cookies ex_bad_bearer_request (SESSION_COOKIE_NAME ex_cfg) = Some ex_tok"
    by (simp_all add: ex_bearer_request_def ex_bad_bearer_request_def ex_cookies_def ex_cfg_def)
  have s: "fst (getSession ex_cfg 2000 ex_tok (store ex_world)) = Returned (Some ex_payload)"
    by code_simp
  have u: "apiKeys (snd (updateLastUsed 2000000 ''k1'' (db ex_world))) = [ex_key\<lparr>key_lastUsedAt := Some 2000000\<rparr>]"
    by code_simp
  have k: "key_id ex_found = ''k1''" "user ex_found = ex_user1" by (simp_all add: ex_found_def)
  note g = bearer_is_exclusive[OF ex_bearer_header(1), of ex_digest 2000000 ex_world ex_cfg]
  note b = bearer_is_exclusive[OF ex_bearer_header(2), of ex_digest 2000000 ex_world ex_cfg]
  from g ok k have 1: "requireAuth ex_cfg ex_digest 2000000 ex_bearer_request ex_world =
     (Returned (Next (nothingAttached\<lparr>req_user := Some ex_user1, req_apiKey := Some ex_found\<rparr>)),
      ex_world\<lparr>db := snd (updateLastUsed 2000000 ''k1'' (db ex_world))\<rparr>)"
    by simp
  from b bad have 2: "requireAuth ex_cfg ex_digest 2000000 ex_bad_bearer_request ex_world =
     (Returned (ErrorResponse INVALID_TOKEN []), ex_world)"
    by simp
  from ex_bearer_header c ok 1 u s bad 2 show ?thesis by blast
qed

end
